theory Spec2Isabelle
  imports Main "HOL-Library.AList" "HOL-Library.Word"
begin

section \<open>Errors raised by the helper functions\<close>

text \<open>
  The functions of \<^verbatim>\<open>functions.py\<close> raise no exception of their own; every failure
  comes out of a library call or out of Python itself and is propagated to the caller.
  Each exception class that can reach the caller is a constructor here, and a function
  that may raise returns \<open>error + 'a\<close> with \<open>Inl\<close> for the exception.
\<close>

datatype error =
    OverflowError
  | ValueError
  | KeyError
  | TypeError
  | UnboundLocalError

section \<open>Dates\<close>

text \<open>
  A \<^verbatim>\<open>datetime.datetime\<close> is kept as its proleptic Gregorian ordinal (the value of
  \<^verbatim>\<open>toordinal()\<close>, day 1 being 0001-01-01) and the microseconds since midnight.
  Python's dates run from 0001-01-01 to 9999-12-31, ordinals 1 to 3652059, and a
  \<^verbatim>\<open>timedelta\<close> holds at most 999999999 days in either direction; arithmetic that
  leaves either range raises \<^verbatim>\<open>OverflowError\<close>.
\<close>

record datetime =
  ordinal :: int
  time_us :: nat

definition MAXORDINAL :: int where
  "MAXORDINAL = 3652059"

definition valid_datetime :: "datetime \<Rightarrow> bool" where
  "valid_datetime d \<longleftrightarrow> 1 \<le> ordinal d \<and> ordinal d \<le> MAXORDINAL \<and> time_us d < 86400000000"

text \<open>\<^verbatim>\<open>datetime.timedelta(days=n)\<close>: the number of days, checked against the limit.\<close>

definition timedelta :: "int \<Rightarrow> error + int" where
  "timedelta days = (if \<bar>days\<bar> > 999999999 then Inl OverflowError else Inr days)"

text \<open>\<^verbatim>\<open>d + td\<close> and \<^verbatim>\<open>d - td\<close> for a datetime and a whole number of days.\<close>

definition datetime_add :: "datetime \<Rightarrow> int \<Rightarrow> error + datetime" where
  "datetime_add d td =
     (let n = ordinal d + td
      in if 0 < n \<and> n \<le> MAXORDINAL then Inr (d\<lparr>ordinal := n\<rparr>) else Inl OverflowError)"

definition datetime_sub :: "datetime \<Rightarrow> int \<Rightarrow> error + datetime" where
  "datetime_sub d td = datetime_add d (- td)"

subsection \<open>The calendar\<close>

definition is_leap :: "int \<Rightarrow> bool" where
  "is_leap y \<longleftrightarrow> y mod 4 = 0 \<and> (y mod 100 \<noteq> 0 \<or> y mod 400 = 0)"

definition days_before_year :: "int \<Rightarrow> int" where
  "days_before_year year = (let y = year - 1 in y * 365 + y div 4 - y div 100 + y div 400)"

definition days_in_month :: "int \<Rightarrow> int \<Rightarrow> int" where
  "days_in_month year month =
     (if month = 2 \<and> is_leap year then 29
      else [31, 28, 31, 30, 31, 30, 31, 31, 30, 31, 30, 31] ! nat (month - 1))"

definition days_before_month :: "int \<Rightarrow> int \<Rightarrow> int" where
  "days_before_month year month =
     [0, 31, 59, 90, 120, 151, 181, 212, 243, 273, 304, 334] ! nat (month - 1)
       + (if month > 2 \<and> is_leap year then 1 else 0)"

definition ymd2ord :: "int \<Rightarrow> int \<Rightarrow> int \<Rightarrow> int" where
  "ymd2ord year month day = days_before_year year + days_before_month year month + day"

text \<open>
  The constructor \<^verbatim>\<open>datetime(year, month, day)\<close> at midnight; it raises
  \<^verbatim>\<open>ValueError\<close> for a year outside 1..9999, a month outside 1..12 or a day the
  month does not have.
\<close>

definition mk_datetime :: "int \<Rightarrow> int \<Rightarrow> int \<Rightarrow> error + datetime" where
  "mk_datetime year month day =
     (if year < 1 \<or> 9999 < year then Inl ValueError
      else if month < 1 \<or> 12 < month then Inl ValueError
      else if day < 1 \<or> days_in_month year month < day then Inl ValueError
      else Inr \<lparr>ordinal = ymd2ord year month day, time_us = 0\<rparr>)"

section \<open>The date window: \<^verbatim>\<open>get_date_range\<close>\<close>

text \<open>
  \<^verbatim>\<open>
  start_date = chosen_date - datetime.timedelta(days=days)
  date_range = []
  for i in range(7):
      date = start_date + datetime.timedelta(days=i)
      date_range.append(date)
  return date_range
  \<close>
  The loop runs over \<^verbatim>\<open>range(7)\<close> whatever \<open>days\<close> is; \<open>date_loop\<close> is that loop
  with the list built so far as its accumulator.
\<close>

fun date_loop :: "datetime \<Rightarrow> int list \<Rightarrow> datetime list \<Rightarrow> error + datetime list" where
  "date_loop start_date [] date_range = Inr date_range"
| "date_loop start_date (i # is) date_range =
     (case timedelta i of
        Inl e \<Rightarrow> Inl e
      | Inr td \<Rightarrow>
          (case datetime_add start_date td of
             Inl e \<Rightarrow> Inl e
           | Inr date \<Rightarrow> date_loop start_date is (date_range @ [date])))"

definition get_date_range :: "datetime \<Rightarrow> int \<Rightarrow> error + datetime list" where
  "get_date_range chosen_date days =
     (case timedelta days of
        Inl e \<Rightarrow> Inl e
      | Inr td \<Rightarrow>
          (case datetime_sub chosen_date td of
             Inl e \<Rightarrow> Inl e
           | Inr start_date \<Rightarrow> date_loop start_date [0..6] []))"

text \<open>The window written out: seven consecutive days from \<open>chosen_date - days\<close>.\<close>

definition window_from :: "datetime \<Rightarrow> int \<Rightarrow> datetime list" where
  "window_from chosen_date days =
     map (\<lambda>i. chosen_date\<lparr>ordinal := ordinal chosen_date - days + i\<rparr>) [0..6]"

definition window_in_range :: "datetime \<Rightarrow> int \<Rightarrow> bool" where
  "window_in_range chosen_date days \<longleftrightarrow>
     1 \<le> ordinal chosen_date - days \<and> ordinal chosen_date - days + 6 \<le> MAXORDINAL"

section \<open>Parsing a reference date: \<^verbatim>\<open>datetime.strptime(date_str, '%Y-%m-%d')\<close>\<close>

text \<open>
  \<^verbatim>\<open>strptime\<close> turns the format into the regular expression
  \<^verbatim>\<open>(?P<Y>\d\d\d\d)-(?P<m>1[0-2]|0[1-9]|[1-9])-(?P<d>3[0-1]|[1-2]\d|0[1-9]|[1-9]| [1-9])\<close>,
  matches it at the start of the string, raises \<^verbatim>\<open>ValueError\<close> when it does
  not match or when characters remain after the match, and builds the date from the three
  numbers, which raises \<^verbatim>\<open>ValueError\<close> for a date the calendar does not have.
  Each directive below returns its alternatives in the order the expression tries them.
  A \<open>char\<close> stands for a code point below 256, where the only digits are 0 to 9.
\<close>

definition is_digit :: "char \<Rightarrow> bool" where
  "is_digit c \<longleftrightarrow> 48 \<le> (of_char c :: nat) \<and> (of_char c :: nat) \<le> 57"

definition digit_val :: "char \<Rightarrow> int" where
  "digit_val c = int (of_char c) - 48"

definition in_range :: "char \<Rightarrow> char \<Rightarrow> char \<Rightarrow> bool" where
  "in_range lo hi c \<longleftrightarrow> (of_char lo :: nat) \<le> of_char c \<and> (of_char c :: nat) \<le> of_char hi"

fun match_Y :: "string \<Rightarrow> (int \<times> string) list" where
  "match_Y (a # b # c # d # rest) =
     (if is_digit a \<and> is_digit b \<and> is_digit c \<and> is_digit d
      then [(1000 * digit_val a + 100 * digit_val b + 10 * digit_val c + digit_val d, rest)]
      else [])"
| "match_Y _ = []"

fun match_char :: "char \<Rightarrow> string \<Rightarrow> string list" where
  "match_char x (c # rest) = (if c = x then [rest] else [])"
| "match_char x [] = []"

fun two_chars :: "(char \<Rightarrow> bool) \<Rightarrow> (char \<Rightarrow> bool) \<Rightarrow> string \<Rightarrow> (int \<times> string) list" where
  "two_chars p q (a # b # rest) =
     (if p a \<and> q b then [(10 * (if is_digit a then digit_val a else 0) + digit_val b, rest)]
      else [])"
| "two_chars p q _ = []"

fun one_char :: "(char \<Rightarrow> bool) \<Rightarrow> string \<Rightarrow> (int \<times> string) list" where
  "one_char p (a # rest) = (if p a then [(digit_val a, rest)] else [])"
| "one_char p [] = []"

definition match_m :: "string \<Rightarrow> (int \<times> string) list" where
  "match_m s =
     two_chars (\<lambda>c. c = CHR ''1'') (in_range CHR ''0'' CHR ''2'') s
     @ two_chars (\<lambda>c. c = CHR ''0'') (in_range CHR ''1'' CHR ''9'') s
     @ one_char (in_range CHR ''1'' CHR ''9'') s"

definition match_d :: "string \<Rightarrow> (int \<times> string) list" where
  "match_d s =
     two_chars (\<lambda>c. c = CHR ''3'') (in_range CHR ''0'' CHR ''1'') s
     @ two_chars (in_range CHR ''1'' CHR ''2'') is_digit s
     @ two_chars (\<lambda>c. c = CHR ''0'') (in_range CHR ''1'' CHR ''9'') s
     @ one_char (in_range CHR ''1'' CHR ''9'') s
     @ two_chars (\<lambda>c. c = CHR '' '') (in_range CHR ''1'' CHR ''9'') s"

text \<open>All the ways the expression matches a prefix of the string, the preferred one first.\<close>

definition match_format :: "string \<Rightarrow> ((int \<times> int \<times> int) \<times> string) list" where
  "match_format s =
     concat (map (\<lambda>(y, s1).
       concat (map (\<lambda>s2.
         concat (map (\<lambda>(m, s3).
           concat (map (\<lambda>s4.
             map (\<lambda>(d, s5). ((y, m, d), s5)) (match_d s4))
           (match_char CHR ''-'' s3)))
         (match_m s2)))
       (match_char CHR ''-'' s1)))
     (match_Y s))"

definition strptime :: "string \<Rightarrow> error + datetime" where
  "strptime date_str =
     (case match_format date_str of
        [] \<Rightarrow> Inl ValueError
      | ((year, month, day), rest) # _ \<Rightarrow>
          if rest \<noteq> [] then Inl ValueError else mk_datetime year month day)"


section \<open>Tables\<close>

text \<open>
  A cell of a \<^verbatim>\<open>pandas.DataFrame\<close> is a number, a string, a date or a missing
  value. A number is a 64-bit integer, the \<^verbatim>\<open>int64\<close> of numpy, read as signed; its
  arithmetic wraps around modulo \<open>2\<^sup>6\<^sup>4\<close>, as numpy's does on arrays. Floating-point
  numbers are left out: their arithmetic rounds, which has no counterpart here.

  A table has the names of its index levels, the names of its columns and its rows in
  order. A row carries its index labels by level name and its values by column name; a
  name a row has no entry for reads as the missing value. A table with no level name
  has the default positional index, which is not stored. Columns have no dtype of their
  own: what a column holds is what its cells are.
\<close>

datatype cell = Int64 "64 word" | Str string | Date datetime | NaN

record row =
  labels :: "(string \<times> cell) list"
  vals :: "(string \<times> cell) list"

record dataframe =
  levels :: "string list"
  columns :: "string list"
  rows :: "row list"

definition cell_at :: "(string \<times> cell) list \<Rightarrow> string \<Rightarrow> cell" where
  "cell_at entries name = (case map_of entries name of Some c \<Rightarrow> c | None \<Rightarrow> NaN)"

text \<open>\<^verbatim>\<open>pd.DataFrame()\<close>.\<close>

definition empty_frame :: "dataframe" where
  "empty_frame = \<lparr>levels = [], columns = [], rows = []\<rparr>"

text \<open>\<^verbatim>\<open>data[column]\<close>: the values of a column, \<^verbatim>\<open>KeyError\<close> without it.\<close>

definition get_column :: "dataframe \<Rightarrow> string \<Rightarrow> error + cell list" where
  "get_column data column =
     (if column \<in> set (columns data)
      then Inr (map (\<lambda>r. cell_at (vals r) column) (rows data))
      else Inl KeyError)"

text \<open>\<^verbatim>\<open>data.index.get_level_values(level)\<close>.\<close>

definition get_level_values :: "dataframe \<Rightarrow> string \<Rightarrow> error + cell list" where
  "get_level_values data level =
     (if level \<in> set (levels data)
      then Inr (map (\<lambda>r. cell_at (labels r) level) (rows data))
      else Inl KeyError)"

text \<open>\<^verbatim>\<open>data[mask]\<close> for a boolean mask with one entry per row.\<close>

definition select_rows :: "dataframe \<Rightarrow> bool list \<Rightarrow> dataframe" where
  "select_rows data row_mask = data\<lparr>rows := map snd (filter fst (zip row_mask (rows data)))\<rparr>"

text \<open>\<^verbatim>\<open>series.isin(date_range)\<close> for a list of dates.\<close>

definition isin :: "cell list \<Rightarrow> datetime list \<Rightarrow> bool list" where
  "isin series date_range = map (\<lambda>c. c \<in> set (map Date date_range)) series"

text \<open>
  \<^verbatim>\<open>pd.concat([a, b], ignore_index=True)\<close>: the rows of \<open>a\<close> then those of \<open>b\<close>
  under the union of the columns, the index replaced by the positional one.
\<close>

definition drop_labels :: "row \<Rightarrow> row" where
  "drop_labels r = r\<lparr>labels := []\<rparr>"

definition concat_ignore_index :: "dataframe \<Rightarrow> dataframe \<Rightarrow> dataframe" where
  "concat_ignore_index a b =
     \<lparr>levels = [],
      columns = columns a @ filter (\<lambda>c. c \<notin> set (columns a)) (columns b),
      rows = map drop_labels (rows a @ rows b)\<rparr>"

section \<open>Rows in the date windows: \<^verbatim>\<open>get_matching_entries\<close>\<close>

text \<open>
  \<^verbatim>\<open>
  matching_entries = pd.DataFrame()
  for date_str in dates_of_interest:
      date_obj = datetime.datetime.strptime(date_str, '%Y-%m-%d')
      date_range = get_date_range(date_obj, days)
      matching_df = data[data[date_column].isin(date_range)]
      matching_entries = pd.concat([matching_entries, matching_df],
                                   ignore_index=True)
  return matching_entries
  \<close>
\<close>

fun matching_loop ::
  "string list \<Rightarrow> dataframe \<Rightarrow> string \<Rightarrow> int \<Rightarrow> dataframe \<Rightarrow> error + dataframe" where
  "matching_loop [] data date_column days matching_entries = Inr matching_entries"
| "matching_loop (date_str # rest) data date_column days matching_entries =
     (case strptime date_str of
        Inl e \<Rightarrow> Inl e
      | Inr date_obj \<Rightarrow>
          (case get_date_range date_obj days of
             Inl e \<Rightarrow> Inl e
           | Inr date_range \<Rightarrow>
               (case get_column data date_column of
                  Inl e \<Rightarrow> Inl e
                | Inr series \<Rightarrow>
                    let matching_df = select_rows data (isin series date_range)
                    in matching_loop rest data date_column days
                         (concat_ignore_index matching_entries matching_df))))"

definition get_matching_entries ::
  "string list \<Rightarrow> dataframe \<Rightarrow> string \<Rightarrow> int \<Rightarrow> error + dataframe" where
  "get_matching_entries dates_of_interest data date_column days =
     matching_loop dates_of_interest data date_column days empty_frame"

text \<open>
  The rows of \<open>data\<close> whose date-column value lies in a window, in table order, and the
  window of a reference date once parsed.
\<close>

definition rows_in_window :: "dataframe \<Rightarrow> string \<Rightarrow> datetime list \<Rightarrow> row list" where
  "rows_in_window data date_column w =
     filter (\<lambda>r. cell_at (vals r) date_column \<in> Date ` set w) (rows data)"

definition window_of :: "string \<Rightarrow> int \<Rightarrow> error + datetime list" where
  "window_of date_str days =
     (case strptime date_str of Inl e \<Rightarrow> Inl e | Inr date_obj \<Rightarrow> get_date_range date_obj days)"

section \<open>Differences within groups: \<^verbatim>\<open>calculate_differences\<close>\<close>

text \<open>
  \<^verbatim>\<open>Index.unique()\<close>: the distinct values in the order of their first occurrence.
\<close>

fun unique_loop :: "'a list \<Rightarrow> 'a list \<Rightarrow> 'a list" where
  "unique_loop seen [] = seen"
| "unique_loop seen (x # xs) = unique_loop (if x \<in> set seen then seen else seen @ [x]) xs"

definition unique :: "'a list \<Rightarrow> 'a list" where
  "unique xs = unique_loop [] xs"

text \<open>
  The comparison \<^verbatim>\<open>==\<close> of an index label with a value: a missing value equals
  nothing, itself included.
\<close>

definition cell_eq :: "cell \<Rightarrow> cell \<Rightarrow> bool" where
  "cell_eq a b \<longleftrightarrow> a = b \<and> a \<noteq> NaN"

text \<open>
  The entries of a difference sequence: a number, a span of time in microseconds (the
  difference of two dates) or a missing value. Two numbers are subtracted as numpy
  subtracts \<^verbatim>\<open>int64\<close> values, modulo \<open>2\<^sup>6\<^sup>4\<close> and without an error on
  overflow. Subtraction raises \<^verbatim>\<open>TypeError\<close> when a string takes part or a number
  meets a date.
\<close>

datatype diff = DInt64 "64 word" | DDelta int | DNaN

fun cell_sub :: "cell \<Rightarrow> cell \<Rightarrow> error + diff" where
  "cell_sub (Str s) b = Inl TypeError"
| "cell_sub a (Str s) = Inl TypeError"
| "cell_sub (Int64 x) (Int64 y) = Inr (DInt64 (x - y))"
| "cell_sub (Date d) (Date e) =
     Inr (DDelta ((ordinal d - ordinal e) * 86400000000 + (int (time_us d) - int (time_us e))))"
| "cell_sub (Int64 x) (Date e) = Inl TypeError"
| "cell_sub (Date d) (Int64 y) = Inl TypeError"
| "cell_sub NaN b = Inr DNaN"
| "cell_sub a NaN = Inr DNaN"

text \<open>\<^verbatim>\<open>np.diff(a)\<close>, that is \<^verbatim>\<open>a[1:] - a[:-1]\<close> element by element.\<close>

fun np_diff :: "cell list \<Rightarrow> error + diff list" where
  "np_diff (x # y # rest) =
     (case cell_sub y x of
        Inl e \<Rightarrow> Inl e
      | Inr d \<Rightarrow> (case np_diff (y # rest) of Inl e \<Rightarrow> Inl e | Inr ds \<Rightarrow> Inr (d # ds)))"
| "np_diff _ = Inr []"

text \<open>
  \<^verbatim>\<open>
  unique_values = data.index.get_level_values(index_column).unique()
  differences = {}
  differences_fatalities = {}
  for value in unique_values:
      subset = data[data.index.get_level_values(index_column) == value]
      differences[value] = np.diff(subset[value_column])
      differences_fatalities[value] = np.diff(subset['fatalities, %'])
  dates = subset.index.get_level_values('date')[1:]
  return differences, differences_fatalities, dates, unique_values
  \<close>
  A dictionary is an association list in insertion order. The loop's state is the two
  dictionaries and the variable \<open>subset\<close>, which has no value before the first pass.
\<close>

type_synonym differences = "(cell \<times> diff list) list"

fun differences_loop ::
  "cell list \<Rightarrow> dataframe \<Rightarrow> string \<Rightarrow> string
   \<Rightarrow> differences \<times> differences \<times> dataframe option
   \<Rightarrow> error + (differences \<times> differences \<times> dataframe option)" where
  "differences_loop [] data index_column value_column state = Inr state"
| "differences_loop (v # rest) data index_column value_column
       (differences, differences_fatalities, old_subset) =
     (case get_level_values data index_column of
        Inl e \<Rightarrow> Inl e
      | Inr keys \<Rightarrow>
          let subset_df = select_rows data (map (\<lambda>k. cell_eq k v) keys) in
          (case get_column subset_df value_column of
             Inl e \<Rightarrow> Inl e
           | Inr series \<Rightarrow>
               (case np_diff series of
                  Inl e \<Rightarrow> Inl e
                | Inr d \<Rightarrow>
                    (case get_column subset_df ''fatalities, %'' of
                       Inl e \<Rightarrow> Inl e
                     | Inr fatalities \<Rightarrow>
                         (case np_diff fatalities of
                            Inl e \<Rightarrow> Inl e
                          | Inr df \<Rightarrow>
                              differences_loop rest data index_column value_column
                                (AList.update v d differences,
                                 AList.update v df differences_fatalities,
                                 Some subset_df))))))"

definition calculate_differences ::
  "dataframe \<Rightarrow> string \<Rightarrow> string
   \<Rightarrow> error + (differences \<times> differences \<times> cell list \<times> cell list)" where
  "calculate_differences data index_column value_column =
     (case get_level_values data index_column of
        Inl e \<Rightarrow> Inl e
      | Inr keys \<Rightarrow>
          let unique_values = unique keys in
          (case differences_loop unique_values data index_column value_column ([], [], None) of
             Inl e \<Rightarrow> Inl e
           | Inr (differences, differences_fatalities, last_subset) \<Rightarrow>
               (case last_subset of
                  None \<Rightarrow> Inl UnboundLocalError
                | Some subset_df \<Rightarrow>
                    (case get_level_values subset_df ''date'' of
                       Inl e \<Rightarrow> Inl e
                     | Inr all_dates \<Rightarrow>
                         Inr (differences, differences_fatalities, drop 1 all_dates,
                              unique_values)))))"

text \<open>The rows of one group, in table order.\<close>

definition group_rows :: "dataframe \<Rightarrow> string \<Rightarrow> cell \<Rightarrow> row list" where
  "group_rows data index_column v =
     filter (\<lambda>r. cell_eq (cell_at (labels r) index_column) v) (rows data)"

text \<open>The values of a column within one group, in table order.\<close>

definition group_values :: "dataframe \<Rightarrow> string \<Rightarrow> cell \<Rightarrow> string \<Rightarrow> cell list" where
  "group_values data index_column v column =
     map (\<lambda>r. cell_at (vals r) column) (group_rows data index_column v)"

section \<open>Rows that mention a word: \<^verbatim>\<open>find_word\<close>\<close>

text \<open>
  \<^verbatim>\<open>
  pattern = fr'\b{word}s?\b'
  mask = dataframe[column].str.contains(pattern, regex=True)
  filtered_df = dataframe[mask]
  \<close>
  The word is pasted into the pattern as it is, so the pattern is whatever regular
  expression the three pieces spell together. The fragment of Python's expressions given
  a meaning here is: an ordinary character, the dot, either of them followed by
  \<^verbatim>\<open>?\<close>, and the word boundary \<^verbatim>\<open>\b\<close>. A pattern that uses anything else
  (classes, groups, repetition, alternatives, anchors, other escapes) has no model:
  \<open>re_parse\<close> is \<open>None\<close> for it, and so is \<open>find_word\<close>.

  A word character is what \<^verbatim>\<open>\w\<close> matches in a Python \<^verbatim>\<open>str\<close> pattern: a letter,
  a digit or the underscore, here for the code points below 256.
\<close>

definition is_word_char :: "char \<Rightarrow> bool" where
  "is_word_char c \<longleftrightarrow>
     (let n = (of_char c :: nat)
      in (48 \<le> n \<and> n \<le> 57) \<or> (65 \<le> n \<and> n \<le> 90) \<or> n = 95 \<or> (97 \<le> n \<and> n \<le> 122)
         \<or> n = 170 \<or> n = 178 \<or> n = 179 \<or> n = 181 \<or> n = 185 \<or> n = 186
         \<or> (188 \<le> n \<and> n \<le> 190) \<or> (192 \<le> n \<and> n \<le> 214) \<or> (216 \<le> n \<and> n \<le> 246)
         \<or> 248 \<le> n)"

datatype atom = Lit char | Dot

datatype item = Boundary | Once atom | Opt atom

definition backslash :: char where
  "backslash = CHR 0x5C"

text \<open>The characters with a special meaning outside a class: \<^verbatim>\<open>. \ [ { ( ) * + ? ^ $ |\<close>.\<close>

definition is_special :: "char \<Rightarrow> bool" where
  "is_special c \<longleftrightarrow> c \<in> set ''.[{()*+?^$|'' \<or> c = backslash"

fun re_parse :: "string \<Rightarrow> item list option" where
  "re_parse [] = Some []"
| "re_parse [c] =
     (if c = CHR ''.'' then Some [Once Dot]
      else if is_special c then None
      else Some [Once (Lit c)])"
| "re_parse (c # d # rest) =
     (if c = backslash then
        (if d = CHR ''b'' then map_option (Cons Boundary) (re_parse rest) else None)
      else if is_special c \<and> c \<noteq> CHR ''.'' then None
      else
        let a = (if c = CHR ''.'' then Dot else Lit c)
        in if d = CHR ''?'' then map_option (Cons (Opt a)) (re_parse rest)
           else map_option (Cons (Once a)) (re_parse (d # rest)))"

fun atom_matches :: "atom \<Rightarrow> char \<Rightarrow> bool" where
  "atom_matches (Lit x) c \<longleftrightarrow> c = x"
| "atom_matches Dot c \<longleftrightarrow> c \<noteq> CHR 0x0A"

text \<open>
  \<^verbatim>\<open>\b\<close> holds between a word character and a character that is not one, the start
  and the end of the text counting as not one. \<open>prev\<close> is the character before the
  position, \<open>s\<close> the text from the position on.
\<close>

definition word_before :: "char option \<Rightarrow> bool" where
  "word_before prev = (case prev of None \<Rightarrow> False | Some c \<Rightarrow> is_word_char c)"

definition word_after :: "string \<Rightarrow> bool" where
  "word_after s = (case s of [] \<Rightarrow> False | c # _ \<Rightarrow> is_word_char c)"

definition at_boundary :: "char option \<Rightarrow> string \<Rightarrow> bool" where
  "at_boundary prev s \<longleftrightarrow> word_before prev \<noteq> word_after s"

fun match_here :: "item list \<Rightarrow> char option \<Rightarrow> string \<Rightarrow> bool" where
  "match_here [] prev s \<longleftrightarrow> True"
| "match_here (Boundary # items) prev s \<longleftrightarrow> at_boundary prev s \<and> match_here items prev s"
| "match_here (Once a # items) prev [] \<longleftrightarrow> False"
| "match_here (Once a # items) prev (c # cs) \<longleftrightarrow>
     atom_matches a c \<and> match_here items (Some c) cs"
| "match_here (Opt a # items) prev [] \<longleftrightarrow> match_here items prev []"
| "match_here (Opt a # items) prev (c # cs) \<longleftrightarrow>
     (atom_matches a c \<and> match_here items (Some c) cs) \<or> match_here items prev (c # cs)"

text \<open>\<^verbatim>\<open>re.search\<close>: a match starting at some position of the text.\<close>

fun re_search_from :: "item list \<Rightarrow> char option \<Rightarrow> string \<Rightarrow> bool" where
  "re_search_from items prev [] \<longleftrightarrow> match_here items prev []"
| "re_search_from items prev (c # cs) \<longleftrightarrow>
     match_here items prev (c # cs) \<or> re_search_from items (Some c) cs"

definition re_search :: "item list \<Rightarrow> string \<Rightarrow> bool" where
  "re_search items s = re_search_from items None s"

definition word_pattern :: "string \<Rightarrow> string" where
  "word_pattern word = [backslash, CHR ''b''] @ word @ ''s?'' @ [backslash, CHR ''b'']"

text \<open>
  The model is for a text column: at least one row, every entry a string. What an empty
  column or an entry that is not a string leads to (an \<^verbatim>\<open>AttributeError\<close> of
  \<^verbatim>\<open>.str\<close>, a \<^verbatim>\<open>ValueError\<close> of the selection, or no match for that row)
  depends on the dtype of the column and on the version of pandas; such a column is given
  no meaning, and \<open>find_word\<close> is \<open>None\<close> for it as it is for a pattern outside the
  fragment. The column is looked up first, so a missing column is a \<^verbatim>\<open>KeyError\<close>
  whatever the word.
\<close>

fun the_strings :: "cell list \<Rightarrow> string list option" where
  "the_strings [] = Some []"
| "the_strings (Str s # cs) = map_option (Cons s) (the_strings cs)"
| "the_strings (c # cs) = None"

definition str_contains :: "item list \<Rightarrow> string list \<Rightarrow> bool list" where
  "str_contains items texts = map (re_search items) texts"

definition find_word :: "dataframe \<Rightarrow> string \<Rightarrow> string \<Rightarrow> (error + dataframe) option" where
  "find_word dataframe column word =
     (case get_column dataframe column of
        Inl e \<Rightarrow> Some (Inl e)
      | Inr series \<Rightarrow>
          (case the_strings series of
             None \<Rightarrow> None
           | Some texts \<Rightarrow>
               if texts = [] then None
               else
                 (case re_parse (word_pattern word) of
                    None \<Rightarrow> None
                  | Some items \<Rightarrow>
                      Some (Inr (select_rows dataframe (str_contains items texts))))))"

text \<open>
  What the docstring and the specification promise: the text contains the word as a whole
  word, that is, at a place where it is neither preceded nor followed by a word
  character, as it is or with one \<open>s\<close> behind it.
\<close>

definition whole_word_in :: "string \<Rightarrow> string \<Rightarrow> bool" where
  "whole_word_in w s \<longleftrightarrow>
     (\<exists>pre post. s = pre @ w @ post
        \<and> (pre = [] \<or> \<not> is_word_char (last pre))
        \<and> (post = [] \<or> \<not> is_word_char (hd post)))"

definition mentions_word :: "string \<Rightarrow> string \<Rightarrow> bool" where
  "mentions_word word s \<longleftrightarrow> whole_word_in word s \<or> whole_word_in (word @ ''s'') s"

section \<open>Example tables\<close>

definition midnight :: "int \<Rightarrow> datetime" where
  "midnight n = \<lparr>ordinal = n, time_us = 0\<rparr>"

definition case_row :: "string \<Rightarrow> int \<Rightarrow> 64 word \<Rightarrow> 64 word \<Rightarrow> row" where
  "case_row k d c f =
     \<lparr>labels = [(''country'', Str k), (''date'', Date (midnight d))],
      vals = [(''confirmed'', Int64 c), (''fatalities, %'', Int64 f)]\<rparr>"

text \<open>Cases by country and day; group \<open>A\<close> has the values 10, 15, 13.\<close>

definition example_cases :: "dataframe" where
  "example_cases =
     \<lparr>levels = [''country'', ''date''],
      columns = [''confirmed'', ''fatalities, %''],
      rows = [case_row ''A'' 738641 10 1, case_row ''C'' 738641 1 1,
              case_row ''B'' 738641 3 0, case_row ''A'' 738642 15 2,
              case_row ''A'' 738643 13 2, case_row ''B'' 738645 7 1]\<rparr>"

definition policy_row :: "int \<Rightarrow> string \<Rightarrow> row" where
  "policy_row d p = \<lparr>labels = [], vals = [(''start_date'', Date (midnight d)), (''policy'', Str p)]\<rparr>"

text \<open>Policies starting on 2023-04-24, 2023-05-01 and 2023-04-30.\<close>

definition example_policy :: "dataframe" where
  "example_policy =
     \<lparr>levels = [], columns = [''start_date'', ''policy''],
      rows = [policy_row 738634 ''a'', policy_row 738641 ''b'', policy_row 738640 ''c'']\<rparr>"

definition text_row :: "string \<Rightarrow> row" where
  "text_row s = \<lparr>labels = [], vals = [(''text'', Str s)]\<rparr>"

definition example_texts :: "dataframe" where
  "example_texts =
     \<lparr>levels = [], columns = [''text''],
      rows = [text_row ''cat runs'', text_row ''cats jump'', text_row ''dog barks'']\<rparr>"

text \<open>
  A table whose groups have at most one row: one row for \<open>A\<close>, with a string in the
  value column, and one row whose country is missing, which no comparison selects.
\<close>

definition example_singles :: "dataframe" where
  "example_singles =
     \<lparr>levels = [''country'', ''date''],
      columns = [''confirmed'', ''fatalities, %''],
      rows = [\<lparr>labels = [(''country'', Str ''A''), (''date'', Date (midnight 738641))],
               vals = [(''confirmed'', Str ''n/a''), (''fatalities, %'', Int64 1)]\<rparr>,
              \<lparr>labels = [(''country'', NaN), (''date'', Date (midnight 738642))],
               vals = [(''confirmed'', Int64 5), (''fatalities, %'', Int64 2)]\<rparr>]\<rparr>"

text \<open>Two headlines, one about a parcel service and one about a country.\<close>

definition example_news :: "dataframe" where
  "example_news =
     \<lparr>levels = [], columns = [''text''],
      rows = [text_row ''UPS strike'', text_row ''U.S policy'']\<rparr>"


text \<open>
  One row for \<open>A\<close> and two rows for \<open>B\<close> whose value column holds strings.
\<close>

definition example_mixed :: dataframe where
  "example_mixed =
     \<lparr>levels = [''country'', ''date''],
      columns = [''confirmed'', ''fatalities, %''],
      rows = [case_row ''A'' 738641 10 1,
              \<lparr>labels = [(''country'', Str ''B''), (''date'', Date (midnight 738641))],
               vals = [(''confirmed'', Str ''n/a''), (''fatalities, %'', Int64 1)]\<rparr>,
              \<lparr>labels = [(''country'', Str ''B''), (''date'', Date (midnight 738642))],
               vals = [(''confirmed'', Str ''n/a''), (''fatalities, %'', Int64 2)]\<rparr>]\<rparr>"







section \<open>Properties of the date window\<close>

lemma upto_0_6: "[0..6] = [0, 1, 2, 3, 4, 5, 6::int]"
  by code_simp

lemma date_loop_in_range:
  assumes "\<forall>i \<in> set is. 0 \<le> i \<and> i \<le> 6"
    and "1 \<le> ordinal s" and "ordinal s + 6 \<le> MAXORDINAL"
  shows "date_loop s is acc = Inr (acc @ map (\<lambda>i. s\<lparr>ordinal := ordinal s + i\<rparr>) is)"
  using assms
proof (induction "is" arbitrary: acc)
  case Nil
  then show ?case by simp
next
  case (Cons i "is")
  have i: "0 \<le> i" "i \<le> 6" using Cons.prems(1) by auto
  have td: "timedelta i = Inr i" using i by (simp add: timedelta_def)
  have ad: "datetime_add s i = Inr (s\<lparr>ordinal := ordinal s + i\<rparr>)"
    using i Cons.prems(2,3) by (simp add: datetime_add_def Let_def)
  have "date_loop s is (acc @ [s\<lparr>ordinal := ordinal s + i\<rparr>])
        = Inr ((acc @ [s\<lparr>ordinal := ordinal s + i\<rparr>]) @ map (\<lambda>i. s\<lparr>ordinal := ordinal s + i\<rparr>) is)"
    using Cons.IH [of "acc @ [s\<lparr>ordinal := ordinal s + i\<rparr>]"] Cons.prems by simp
  then show ?case by (simp add: td ad)
qed

lemma get_date_range_in_range:
  assumes "valid_datetime D" and "window_in_range D days"
  shows "get_date_range D days = Inr (window_from D days)"
proof -
  have o: "1 \<le> ordinal D" "ordinal D \<le> MAXORDINAL"
    using assms(1) by (simp_all add: valid_datetime_def)
  have w: "1 \<le> ordinal D - days" "ordinal D - days + 6 \<le> MAXORDINAL"
    using assms(2) by (simp_all add: window_in_range_def)
  have "\<bar>days\<bar> \<le> 999999999" using o w by (simp add: MAXORDINAL_def)
  then have td: "timedelta days = Inr days" by (simp add: timedelta_def)
  let ?s = "D\<lparr>ordinal := ordinal D - days\<rparr>"
  have sb: "datetime_sub D days = Inr ?s"
    using w by (simp add: datetime_sub_def datetime_add_def Let_def)
  have "date_loop ?s [0..6] [] = Inr ([] @ map (\<lambda>i. ?s\<lparr>ordinal := ordinal ?s + i\<rparr>) [0..6])"
    by (rule date_loop_in_range) (use w in auto)
  then show ?thesis
    by (simp add: get_date_range_def td sb window_from_def)
qed

lemma date_loop_Inr:
  "date_loop s is acc = Inr r \<Longrightarrow> r = acc @ map (\<lambda>i. s\<lparr>ordinal := ordinal s + i\<rparr>) is"
proof (induction "is" arbitrary: acc)
  case Nil
  then show ?case by simp
next
  case (Cons i "is")
  from Cons.prems obtain td d where
    td: "timedelta i = Inr td" and d: "datetime_add s td = Inr d"
    and rest: "date_loop s is (acc @ [d]) = Inr r"
    by (auto split: sum.splits)
  have "td = i" using td by (simp add: timedelta_def split: if_splits)
  then have "d = s\<lparr>ordinal := ordinal s + i\<rparr>"
    using d by (auto simp: datetime_add_def Let_def split: if_splits)
  then show ?case using Cons.IH [OF rest] by simp
qed

lemma get_date_range_Inr:
  assumes "get_date_range D days = Inr r"
  shows "r = window_from D days"
proof -
  from assms obtain td s where
    td: "timedelta days = Inr td" and s: "datetime_sub D td = Inr s"
    and loop: "date_loop s [0..6] [] = Inr r"
    by (auto simp: get_date_range_def split: sum.splits)
  have "td = days" using td by (simp add: timedelta_def split: if_splits)
  then have "s = D\<lparr>ordinal := ordinal D - days\<rparr>"
    using s by (auto simp: datetime_sub_def datetime_add_def Let_def split: if_splits)
  then show ?thesis using date_loop_Inr [OF loop] by (simp add: window_from_def)
qed

lemma window_from_length: "length (window_from D days) = 7"
  by (simp add: window_from_def upto_0_6)


text \<open>
  The docstring's example: \<^verbatim>\<open>get_date_range(datetime(2023, 5, 1), 7)\<close> is the seven
  days 2023-04-24 .. 2023-04-30.
\<close>

lemma get_date_range_docstring_example:
  "mk_datetime 2023 5 1 = Inr \<lparr>ordinal = 738641, time_us = 0\<rparr>
   \<and> mk_datetime 2023 4 24 = Inr \<lparr>ordinal = 738634, time_us = 0\<rparr>
   \<and> mk_datetime 2023 4 30 = Inr \<lparr>ordinal = 738640, time_us = 0\<rparr>
   \<and> get_date_range \<lparr>ordinal = 738641, time_us = 0\<rparr> 7
       = Inr (map (\<lambda>n. \<lparr>ordinal = n, time_us = 0\<rparr>)
                [738634, 738635, 738636, 738637, 738638, 738639, 738640])"
  by (simp add: mk_datetime_def days_in_month_def is_leap_def ymd2ord_def
      days_before_year_def days_before_month_def get_date_range_def timedelta_def
      datetime_sub_def datetime_add_def MAXORDINAL_def upto_0_6 Let_def)

text \<open>
  C1, as stated, at the date 2023-05-01 with \<open>days = 1000000000\<close>: the call
  \<^verbatim>\<open>datetime.timedelta(days=1000000000)\<close> raises \<^verbatim>\<open>OverflowError\<close>, so
  \<open>get_date_range\<close> returns no list at all, not a list of 7 dates.
\<close>

theorem get_date_range_overflow_counterexample:
  "valid_datetime \<lparr>ordinal = 738641, time_us = 0\<rparr>
   \<and> get_date_range \<lparr>ordinal = 738641, time_us = 0\<rparr> 1000000000 = Inl OverflowError"
  by (simp add: valid_datetime_def MAXORDINAL_def get_date_range_def timedelta_def)

text \<open>
  C1, amended: for every reference date \<open>D\<close> and every integer \<open>days\<close> such that the
  seven days from \<open>D - days\<close> to \<open>D - days + 6\<close> lie within the dates Python can
  represent (0001-01-01 to 9999-12-31), \<open>get_date_range D days\<close> returns a list of
  exactly 7 dates whose first element is \<open>D - days\<close> and where each element is the
  calendar day after the one before it, at the same time of day; the length does not
  depend on \<open>days\<close>. Moreover, whenever \<open>get_date_range\<close> returns a list at all, the list
  has this shape.
\<close>

theorem get_date_range_window:
  "(valid_datetime D \<and> window_in_range D days \<longrightarrow> (\<exists>r. get_date_range D days = Inr r))
   \<and> (\<forall>r. get_date_range D days = Inr r \<longrightarrow>
           length r = 7
           \<and> r ! 0 = D\<lparr>ordinal := ordinal D - days\<rparr>
           \<and> (\<forall>i. Suc i < length r \<longrightarrow> r ! Suc i = (r ! i)\<lparr>ordinal := ordinal (r ! i) + 1\<rparr>))"
proof (intro conjI allI impI)
  assume "valid_datetime D \<and> window_in_range D days"
  then show "\<exists>r. get_date_range D days = Inr r"
    using get_date_range_in_range by blast
next
  fix r assume "get_date_range D days = Inr r"
  then have r: "r = window_from D days" by (rule get_date_range_Inr)
  show "length r = 7" by (simp add: r window_from_length)
  show "r ! 0 = D\<lparr>ordinal := ordinal D - days\<rparr>"
    by (simp add: r window_from_def upto_0_6)
  fix i assume "Suc i < length r"
  then have "i \<in> {0, 1, 2, 3, 4, 5}" by (auto simp: r window_from_length)
  then show "r ! Suc i = (r ! i)\<lparr>ordinal := ordinal (r ! i) + 1\<rparr>"
    by (auto simp: r window_from_def upto_0_6)
qed

theorem get_date_range_window_witness:
  "valid_datetime \<lparr>ordinal = 738641, time_us = 0\<rparr>
   \<and> window_in_range \<lparr>ordinal = 738641, time_us = 0\<rparr> 7
   \<and> (\<exists>r. get_date_range \<lparr>ordinal = 738641, time_us = 0\<rparr> 7 = Inr r
          \<and> length r = 7
          \<and> r ! 0 = \<lparr>ordinal = 738634, time_us = 0\<rparr>
          \<and> r ! 1 = \<lparr>ordinal = 738635, time_us = 0\<rparr>)"
proof -
  let ?D = "\<lparr>ordinal = 738641, time_us = 0\<rparr>"
  have v: "valid_datetime ?D \<and> window_in_range ?D 7"
    by (simp add: valid_datetime_def window_in_range_def MAXORDINAL_def)
  from get_date_range_window [of ?D 7] v obtain r where r: "get_date_range ?D 7 = Inr r"
    by blast
  from get_date_range_window [of ?D 7] r
  have p: "length r = 7" "r ! 0 = ?D\<lparr>ordinal := ordinal ?D - 7\<rparr>"
    "\<forall>i. Suc i < length r \<longrightarrow> r ! Suc i = (r ! i)\<lparr>ordinal := ordinal (r ! i) + 1\<rparr>"
    by blast+
  have "r ! Suc 0 = (r ! 0)\<lparr>ordinal := ordinal (r ! 0) + 1\<rparr>" using p(1,3) by simp
  then have "r ! 1 = \<lparr>ordinal = 738635, time_us = 0\<rparr>" using p(2) by simp
  then show ?thesis using v r p(1,2) by simp
qed

section \<open>Properties of \<^verbatim>\<open>get_matching_entries\<close>\<close>

lemma select_by_mask: "map snd (filter fst (zip (map P xs) xs)) = filter P xs"
  by (induction xs) simp_all

lemma select_rows_isin:
  "rows (select_rows data (isin (map (\<lambda>r. cell_at (vals r) c) (rows data)) w))
   = rows_in_window data c w"
proof -
  have "isin (map (\<lambda>r. cell_at (vals r) c) (rows data)) w
        = map (\<lambda>r. cell_at (vals r) c \<in> Date ` set w) (rows data)"
    by (simp add: isin_def)
  then show ?thesis
    by (simp add: select_rows_def rows_in_window_def select_by_mask)
qed

lemma drop_labels_idem: "drop_labels (drop_labels r) = drop_labels r"
  by (simp add: drop_labels_def)

lemma matching_loop_step:
  assumes "matching_loop (s # ss) data c days acc = Inr t"
  shows "\<exists>w. window_of s days = Inr w \<and> c \<in> set (columns data)
           \<and> matching_loop ss data c days
                (concat_ignore_index acc (data\<lparr>rows := rows_in_window data c w\<rparr>)) = Inr t"
proof -
  from assms obtain d w series where
    d: "strptime s = Inr d" and w: "get_date_range d days = Inr w"
    and col: "get_column data c = Inr series"
    and rest: "matching_loop ss data c days
                 (concat_ignore_index acc (select_rows data (isin series w))) = Inr t"
    by (auto simp: Let_def split: sum.splits)
  from col have c: "c \<in> set (columns data)"
    and series: "series = map (\<lambda>r. cell_at (vals r) c) (rows data)"
    by (auto simp: get_column_def split: if_splits)
  have "select_rows data (isin series w) = data\<lparr>rows := rows_in_window data c w\<rparr>"
    using select_rows_isin [of data c w] by (simp add: series select_rows_def)
  with rest d w c show ?thesis by (auto simp: window_of_def)
qed

lemma matching_loop_rows:
  assumes "matching_loop ds data c days acc = Inr t"
    and "map drop_labels (rows acc) = rows acc"
  shows "\<exists>ws. map (\<lambda>s. window_of s days) ds = map Inr ws
           \<and> rows t = rows acc @ map drop_labels (concat (map (rows_in_window data c) ws))"
  using assms
proof (induction ds arbitrary: acc)
  case Nil
  then show ?case by simp
next
  case (Cons s ss)
  from matching_loop_step [OF Cons.prems(1)] obtain w where
    w: "window_of s days = Inr w"
    and rest: "matching_loop ss data c days
                 (concat_ignore_index acc (data\<lparr>rows := rows_in_window data c w\<rparr>)) = Inr t"
    by blast
  let ?acc = "concat_ignore_index acc (data\<lparr>rows := rows_in_window data c w\<rparr>)"
  have acc': "rows ?acc = rows acc @ map drop_labels (rows_in_window data c w)"
    using Cons.prems(2) by (simp add: concat_ignore_index_def)
  have inv: "map drop_labels (rows ?acc) = rows ?acc"
    by (simp add: concat_ignore_index_def drop_labels_idem comp_def)
  from Cons.IH [OF rest inv] obtain ws where
    ws: "map (\<lambda>s. window_of s days) ss = map Inr ws"
    and r: "rows t = rows ?acc @ map drop_labels (concat (map (rows_in_window data c) ws))"
    by blast
  have "map (\<lambda>s. window_of s days) (s # ss) = map Inr (w # ws)"
    using w ws by simp
  moreover have "rows t
      = rows acc @ map drop_labels (concat (map (rows_in_window data c) (w # ws)))"
    using r acc' by simp
  ultimately show ?case by blast
qed

lemma matching_loop_returns:
  assumes "c \<in> set (columns data)"
    and "\<forall>s \<in> set ds. \<exists>w. window_of s days = Inr w"
  shows "\<exists>t. matching_loop ds data c days acc = Inr t"
  using assms(2)
proof (induction ds arbitrary: acc)
  case Nil
  then show ?case by simp
next
  case (Cons s ss)
  from Cons.prems obtain w where "window_of s days = Inr w" by auto
  then obtain d where d: "strptime s = Inr d" and w: "get_date_range d days = Inr w"
    by (auto simp: window_of_def split: sum.splits)
  have col: "get_column data c = Inr (map (\<lambda>r. cell_at (vals r) c) (rows data))"
    using assms(1) by (simp add: get_column_def)
  have "\<forall>s \<in> set ss. \<exists>w. window_of s days = Inr w" using Cons.prems by simp
  from Cons.IH [OF this] show ?case by (simp add: d w col Let_def)
qed

text \<open>
  C7: called with an empty list of reference dates, \<open>get_matching_entries\<close> returns the
  empty table (no rows, no columns), whatever the table, the column name and \<open>days\<close>.
\<close>

theorem get_matching_entries_no_dates:
  "get_matching_entries [] data date_column days = Inr empty_frame
   \<and> rows empty_frame = [] \<and> columns empty_frame = []"
  by (simp add: get_matching_entries_def empty_frame_def)

text \<open>
  C4: for every list of reference-date strings, the table \<open>get_matching_entries\<close>
  returns holds, for each reference date in the order of the list, the rows of the source
  table whose date-column value lies in that date's 7-date window, in table order; a row
  in several windows is there once for each, and the number of rows is the sum of the
  numbers of rows in the windows. The index labels are replaced by positions
  (\<^verbatim>\<open>ignore_index=True\<close>). The function returns whenever the table has the date
  column and every reference date has a window.
\<close>

theorem get_matching_entries_rows:
  "(date_column \<in> set (columns data)
      \<and> (\<forall>s \<in> set dates_of_interest. \<exists>w. window_of s days = Inr w)
     \<longrightarrow> (\<exists>t. get_matching_entries dates_of_interest data date_column days = Inr t))
   \<and> (\<forall>t. get_matching_entries dates_of_interest data date_column days = Inr t \<longrightarrow>
         (\<exists>ws. map (\<lambda>s. window_of s days) dates_of_interest = map Inr ws
            \<and> rows t = map drop_labels (concat (map (rows_in_window data date_column) ws))
            \<and> length (rows t)
                = sum_list (map (\<lambda>w. length (rows_in_window data date_column w)) ws)))"
proof (intro conjI allI impI)
  assume "date_column \<in> set (columns data)
      \<and> (\<forall>s \<in> set dates_of_interest. \<exists>w. window_of s days = Inr w)"
  then show "\<exists>t. get_matching_entries dates_of_interest data date_column days = Inr t"
    unfolding get_matching_entries_def using matching_loop_returns by blast
next
  fix t assume "get_matching_entries dates_of_interest data date_column days = Inr t"
  then have "matching_loop dates_of_interest data date_column days empty_frame = Inr t"
    by (simp add: get_matching_entries_def)
  from matching_loop_rows [OF this] obtain ws where
    ws: "map (\<lambda>s. window_of s days) dates_of_interest = map Inr ws"
    and r: "rows t = map drop_labels (concat (map (rows_in_window data date_column) ws))"
    by (fastforce simp: empty_frame_def)
  have "length (rows t) = sum_list (map (\<lambda>w. length (rows_in_window data date_column w)) ws)"
    by (simp add: r length_concat comp_def)
  with ws r show "\<exists>ws. map (\<lambda>s. window_of s days) dates_of_interest = map Inr ws
            \<and> rows t = map drop_labels (concat (map (rows_in_window data date_column) ws))
            \<and> length (rows t)
                = sum_list (map (\<lambda>w. length (rows_in_window data date_column w)) ws)"
    by blast
qed

lemma window_of_may_1:
  "window_of ''2023-05-01'' 7
   = Inr (map midnight [738634, 738635, 738636, 738637, 738638, 738639, 738640])"
  by code_simp

lemma window_of_may_2:
  "window_of ''2023-05-02'' 7
   = Inr (map midnight [738635, 738636, 738637, 738638, 738639, 738640, 738641])"
  by code_simp

theorem get_matching_entries_rows_witness:
  "''start_date'' \<in> set (columns example_policy)
   \<and> window_of ''2023-05-01'' 7
       = Inr (map midnight [738634, 738635, 738636, 738637, 738638, 738639, 738640])
   \<and> window_of ''2023-05-02'' 7
       = Inr (map midnight [738635, 738636, 738637, 738638, 738639, 738640, 738641])
   \<and> (\<exists>t. get_matching_entries [''2023-05-01'', ''2023-05-02''] example_policy ''start_date'' 7
            = Inr t
          \<and> rows t = [policy_row 738634 ''a'', policy_row 738640 ''c'',
                      policy_row 738641 ''b'', policy_row 738640 ''c'']
          \<and> length (rows t) = 4)"
proof -
  let ?ds = "[''2023-05-01'', ''2023-05-02'']"
  let ?w1 = "map midnight [738634, 738635, 738636, 738637, 738638, 738639, 738640]"
  let ?w2 = "map midnight [738635, 738636, 738637, 738638, 738639, 738640, 738641]"
  have c: "''start_date'' \<in> set (columns example_policy)"
    by (simp add: example_policy_def)
  have w: "\<forall>s \<in> set ?ds. \<exists>w. window_of s 7 = Inr w"
    by (simp add: window_of_may_1 window_of_may_2)
  note main = get_matching_entries_rows [of "''start_date''" example_policy ?ds 7]
  from main c w obtain t where
    t: "get_matching_entries ?ds example_policy ''start_date'' 7 = Inr t"
    by blast
  from main t obtain ws where
    ws: "map (\<lambda>s. window_of s 7) ?ds = map Inr ws"
    and r: "rows t = map drop_labels (concat (map (rows_in_window example_policy ''start_date'') ws))"
    by blast
  from ws have "ws = [?w1, ?w2]"
    by (auto simp: window_of_may_1 window_of_may_2)
  then have "rows t = [policy_row 738634 ''a'', policy_row 738640 ''c'',
                      policy_row 738641 ''b'', policy_row 738640 ''c'']"
    using r
    by (simp add: rows_in_window_def example_policy_def policy_row_def cell_at_def
        midnight_def drop_labels_def image_iff)
  with c t show ?thesis by (simp add: window_of_may_1 window_of_may_2)
qed

section \<open>Properties of the calendar and of \<^verbatim>\<open>strptime\<close>\<close>






































section \<open>Parse errors in \<^verbatim>\<open>get_matching_entries\<close>\<close>






section \<open>Properties of \<^verbatim>\<open>calculate_differences\<close>\<close>

lemma remdups_drop_seen: "x \<in> set zs \<Longrightarrow> remdups (ys @ x # zs) = remdups (ys @ zs)"
  by (induction ys) auto

lemma unique_loop_eq:
  "distinct seen \<Longrightarrow> unique_loop seen xs = rev (remdups (rev (seen @ xs)))"
proof (induction xs arbitrary: seen)
  case Nil
  then show ?case by (simp add: distinct_remdups_id)
next
  case (Cons x xs)
  show ?case
  proof (cases "x \<in> set seen")
    case True
    then have "remdups (rev xs @ x # rev seen) = remdups (rev xs @ rev seen)"
      by (intro remdups_drop_seen) simp
    with True Cons show ?thesis by simp
  next
    case False
    with Cons.prems have "distinct (seen @ [x])" by simp
    from Cons.IH [OF this] False show ?thesis by simp
  qed
qed

lemma unique_eq: "unique xs = rev (remdups (rev xs))"
  using unique_loop_eq [of "[]" xs] by (simp add: unique_def)

lemma distinct_unique: "distinct (unique xs)"
  by (simp add: unique_eq)

lemma set_unique: "set (unique xs) = set xs"
  by (simp add: unique_eq)



lemma np_diff_short: "length xs \<le> 1 \<Longrightarrow> np_diff xs = Inr []"
  by (cases xs rule: np_diff.cases) simp_all

lemma np_diff_numbers:
  "np_diff (map Int64 xs) = Inr (map (\<lambda>i. DInt64 (xs ! Suc i - xs ! i)) [0..<length xs - 1])"
proof (induction xs rule: induct_list012)
  case (3 x y zs)
  have "map (\<lambda>i. DInt64 ((x # y # zs) ! Suc i - (x # y # zs) ! i)) [0..<Suc (length zs)]
        = DInt64 (y - x) # map (\<lambda>i. DInt64 ((y # zs) ! Suc i - (y # zs) ! i)) [0..<length zs]"
    by (simp add: upt_rec [of 0] map_Suc_upt [symmetric] del: upt_Suc)
  with 3 show ?case by simp
qed simp_all

lemma select_group:
  assumes "get_level_values data ic = Inr keys"
  shows "select_rows data (map (\<lambda>k. cell_eq k v) keys) = data\<lparr>rows := group_rows data ic v\<rparr>"
proof -
  from assms have "keys = map (\<lambda>r. cell_at (labels r) ic) (rows data)"
    by (auto simp: get_level_values_def split: if_splits)
  then have "map (\<lambda>k. cell_eq k v) keys
             = map (\<lambda>r. cell_eq (cell_at (labels r) ic) v) (rows data)"
    by simp
  then show ?thesis
    by (simp add: select_rows_def group_rows_def select_by_mask)
qed

lemma get_column_group:
  "get_column (data\<lparr>rows := group_rows data ic v\<rparr>) c
   = (if c \<in> set (columns data) then Inr (group_values data ic v c) else Inl KeyError)"
  by (simp add: get_column_def group_values_def)

lemma differences_loop_step:
  assumes "differences_loop (v # rest) data ic vc (d, f, s) = Inr out"
  shows "\<exists>ds fs. ic \<in> set (levels data) \<and> vc \<in> set (columns data)
           \<and> ''fatalities, %'' \<in> set (columns data)
           \<and> np_diff (group_values data ic v vc) = Inr ds
           \<and> np_diff (group_values data ic v ''fatalities, %'') = Inr fs
           \<and> differences_loop rest data ic vc
                (AList.update v ds d, AList.update v fs f,
                 Some (data\<lparr>rows := group_rows data ic v\<rparr>)) = Inr out"
proof -
  from assms obtain keys where keys: "get_level_values data ic = Inr keys"
    by (auto split: sum.splits)
  then have ic: "ic \<in> set (levels data)"
    by (auto simp: get_level_values_def split: if_splits)
  note sel = select_group [OF keys, of v]
  from assms keys sel obtain series ds fat fs where
    c1: "get_column (data\<lparr>rows := group_rows data ic v\<rparr>) vc = Inr series"
    and d1: "np_diff series = Inr ds"
    and c2: "get_column (data\<lparr>rows := group_rows data ic v\<rparr>) ''fatalities, %'' = Inr fat"
    and d2: "np_diff fat = Inr fs"
    and rest: "differences_loop rest data ic vc
                (AList.update v ds d, AList.update v fs f,
                 Some (data\<lparr>rows := group_rows data ic v\<rparr>)) = Inr out"
    by (auto simp: Let_def split: sum.splits)
  from c1 have "vc \<in> set (columns data)" "series = group_values data ic v vc"
    by (auto simp: get_column_group split: if_splits)
  moreover from c2 have "''fatalities, %'' \<in> set (columns data)"
    "fat = group_values data ic v ''fatalities, %''"
    by (auto simp: get_column_group split: if_splits)
  ultimately show ?thesis using ic d1 d2 rest by blast
qed

lemma differences_loop_result:
  assumes "differences_loop vs data ic vc (d, f, s) = Inr (d', f', s')"
    and "distinct vs"
    and "set vs \<inter> fst ` set d = {}" and "set vs \<inter> fst ` set f = {}"
  shows "map fst d' = map fst d @ vs \<and> map fst f' = map fst f @ vs
         \<and> (\<forall>v \<in> set vs. map_of d' v = Some (projr (np_diff (group_values data ic v vc)))
                \<and> np_diff (group_values data ic v vc) = Inr (projr (np_diff (group_values data ic v vc)))
                \<and> map_of f' v = Some (projr (np_diff (group_values data ic v ''fatalities, %'')))
                \<and> np_diff (group_values data ic v ''fatalities, %'')
                    = Inr (projr (np_diff (group_values data ic v ''fatalities, %''))))
         \<and> (\<forall>v. v \<notin> set vs \<longrightarrow> map_of d' v = map_of d v \<and> map_of f' v = map_of f v)
         \<and> s' = (if vs = [] then s else Some (data\<lparr>rows := group_rows data ic (last vs)\<rparr>))"
  using assms
proof (induction vs arbitrary: d f s)
  case Nil
  then show ?case by simp
next
  case (Cons v rest)
  from differences_loop_step [OF Cons.prems(1)] obtain ds fs where
    ds: "np_diff (group_values data ic v vc) = Inr ds"
    and fs: "np_diff (group_values data ic v ''fatalities, %'') = Inr fs"
    and loop: "differences_loop rest data ic vc
                (AList.update v ds d, AList.update v fs f,
                 Some (data\<lparr>rows := group_rows data ic v\<rparr>)) = Inr (d', f', s')"
    by blast
  have v: "v \<notin> fst ` set d" "v \<notin> fst ` set f" "v \<notin> set rest" "distinct rest"
    using Cons.prems(2,3,4) by auto
  have kd: "map fst (AList.update v ds d) = map fst d @ [v]"
    and kf: "map fst (AList.update v fs f) = map fst f @ [v]"
    using v(1,2) by (simp_all add: update_keys)
  have disj: "set rest \<inter> fst ` set (AList.update v ds d) = {}"
    "set rest \<inter> fst ` set (AList.update v fs f) = {}"
  proof -
    have "fst ` set (AList.update v ds d) = set (map fst (AList.update v ds d))" by simp
    then show "set rest \<inter> fst ` set (AList.update v ds d) = {}"
      using Cons.prems(3) v(3) unfolding kd by auto
    have "fst ` set (AList.update v fs f) = set (map fst (AList.update v fs f))" by simp
    then show "set rest \<inter> fst ` set (AList.update v fs f) = {}"
      using Cons.prems(4) v(3) unfolding kf by auto
  qed
  note IH = Cons.IH [OF loop v(4) disj]
  have keys: "map fst d' = map fst d @ v # rest" "map fst f' = map fst f @ v # rest"
    using IH kd kf by simp_all
  have old: "map_of d' v = Some ds" "map_of f' v = Some fs"
    using IH v(3) by (simp_all add: update_conv')
  have other: "\<And>w. w \<notin> set (v # rest) \<Longrightarrow> map_of d' w = map_of d w \<and> map_of f' w = map_of f w"
    using IH by (simp add: update_conv')
  have last: "s' = Some (data\<lparr>rows := group_rows data ic (last (v # rest))\<rparr>)"
    using IH by simp
  show ?case
    using keys old other last IH ds fs by auto
qed

lemma calculate_differences_Inr:
  assumes "calculate_differences data ic vc = Inr (d, f, dates, u)"
  shows "\<exists>keys. get_level_values data ic = Inr keys \<and> u = unique keys \<and> u \<noteq> []
           \<and> differences_loop u data ic vc ([], [], None)
               = Inr (d, f, Some (data\<lparr>rows := group_rows data ic (last u)\<rparr>))
           \<and> ''date'' \<in> set (levels data)
           \<and> dates = drop 1 (map (\<lambda>r. cell_at (labels r) ''date'')
                               (group_rows data ic (last u)))"
proof -
  from assms obtain keys where keys: "get_level_values data ic = Inr keys"
    by (auto simp: calculate_differences_def split: sum.splits)
  from assms keys obtain s' where
    loop: "differences_loop (unique keys) data ic vc ([], [], None) = Inr (d, f, s')"
    and u: "u = unique keys"
    by (auto simp: calculate_differences_def Let_def
        split: sum.splits option.splits prod.splits)
  have "s' = (if unique keys = [] then None
              else Some (data\<lparr>rows := group_rows data ic (last (unique keys))\<rparr>))"
    using differences_loop_result [OF loop distinct_unique] by simp
  moreover from assms keys loop have "s' \<noteq> None"
    by (auto simp: calculate_differences_def Let_def split: sum.splits option.splits)
  ultimately have ne: "unique keys \<noteq> []"
    and s': "s' = Some (data\<lparr>rows := group_rows data ic (last (unique keys))\<rparr>)"
    by (auto split: if_splits)
  from assms keys loop s' obtain all_dates where
    "get_level_values (data\<lparr>rows := group_rows data ic (last (unique keys))\<rparr>) ''date''
     = Inr all_dates" and "dates = drop 1 all_dates"
    by (auto simp: calculate_differences_def Let_def split: sum.splits)
  then have "''date'' \<in> set (levels data)"
    "dates = drop 1 (map (\<lambda>r. cell_at (labels r) ''date'')
                      (group_rows data ic (last (unique keys))))"
    by (auto simp: get_level_values_def split: if_splits)
  with keys u ne loop s' show ?thesis by simp
qed

lemma differences_loop_returns:
  assumes "ic \<in> set (levels data)" and "vc \<in> set (columns data)"
    and "''fatalities, %'' \<in> set (columns data)"
    and "\<forall>v \<in> set vs. (\<exists>ds. np_diff (group_values data ic v vc) = Inr ds)
           \<and> (\<exists>fs. np_diff (group_values data ic v ''fatalities, %'') = Inr fs)"
  shows "\<exists>out. differences_loop vs data ic vc (d, f, s) = Inr out"
  using assms(4)
proof (induction vs arbitrary: d f s)
  case Nil
  then show ?case by simp
next
  case (Cons v rest)
  have keys: "get_level_values data ic = Inr (map (\<lambda>r. cell_at (labels r) ic) (rows data))"
    using assms(1) by (simp add: get_level_values_def)
  from Cons.prems obtain ds fs where
    ds: "np_diff (group_values data ic v vc) = Inr ds"
    and fs: "np_diff (group_values data ic v ''fatalities, %'') = Inr fs"
    by auto
  have "\<forall>v \<in> set rest. (\<exists>ds. np_diff (group_values data ic v vc) = Inr ds)
           \<and> (\<exists>fs. np_diff (group_values data ic v ''fatalities, %'') = Inr fs)"
    using Cons.prems by simp
  note rest = this
  note sel = select_group [OF keys, of v]
  have "differences_loop (v # rest) data ic vc (d, f, s)
        = differences_loop rest data ic vc
            (AList.update v ds d, AList.update v fs f,
             Some (data\<lparr>rows := group_rows data ic v\<rparr>))"
    by (simp add: keys Let_def sel get_column_group assms(2,3) ds fs del: map_map)
  with Cons.IH [OF rest] show ?case by simp
qed

lemma calculate_differences_returns:
  assumes "ic \<in> set (levels data)" and "''date'' \<in> set (levels data)"
    and "vc \<in> set (columns data)" and "''fatalities, %'' \<in> set (columns data)"
    and "rows data \<noteq> []"
    and "\<forall>v. (\<exists>ds. np_diff (group_values data ic v vc) = Inr ds)
           \<and> (\<exists>fs. np_diff (group_values data ic v ''fatalities, %'') = Inr fs)"
  shows "\<exists>d f dates u. calculate_differences data ic vc = Inr (d, f, dates, u)"
proof -
  let ?keys = "map (\<lambda>r. cell_at (labels r) ic) (rows data)"
  have keys: "get_level_values data ic = Inr ?keys"
    using assms(1) by (simp add: get_level_values_def)
  from differences_loop_returns [OF assms(1,3,4), of "unique ?keys" "[]" "[]" None] assms(6)
  obtain d f s where
    loop: "differences_loop (unique ?keys) data ic vc ([], [], None) = Inr (d, f, s)"
    by (metis prod_cases3)
  have "set (unique ?keys) \<noteq> {}" using assms(5) by (simp add: set_unique)
  then have "unique ?keys \<noteq> []" by auto
  then have s: "s = Some (data\<lparr>rows := group_rows data ic (last (unique ?keys))\<rparr>)"
    using differences_loop_result [OF loop distinct_unique] by simp
  show ?thesis
    by (simp add: calculate_differences_def Let_def loop s get_level_values_def assms(1,2))
qed

lemma example_cases_result:
  "calculate_differences example_cases ''country'' ''confirmed''
   = Inr ([(Str ''A'', [DInt64 5, DInt64 (- 2)]), (Str ''C'', []), (Str ''B'', [DInt64 4])],
          [(Str ''A'', [DInt64 1, DInt64 0]), (Str ''C'', []), (Str ''B'', [DInt64 1])],
          [Date (midnight 738645)],
          [Str ''A'', Str ''C'', Str ''B''])"
  by code_simp

lemma group_member:
  assumes "group_rows data ic v \<noteq> []"
  shows "v \<in> set (map (\<lambda>r. cell_at (labels r) ic) (rows data))"
proof -
  from assms obtain r where "r \<in> set (rows data)" "cell_eq (cell_at (labels r) ic) v"
    unfolding group_rows_def by (metis filter_False)
  then show ?thesis by (auto simp: cell_eq_def)
qed

lemma calculate_differences_lookup:
  assumes "calculate_differences data ic vc = Inr (d, f, dates, u)" and "v \<in> set u"
  shows "\<exists>ds fs. map_of d v = Some ds \<and> map_of f v = Some fs
           \<and> np_diff (group_values data ic v vc) = Inr ds
           \<and> np_diff (group_values data ic v ''fatalities, %'') = Inr fs"
proof -
  from calculate_differences_Inr [OF assms(1)] obtain keys where
    u: "u = unique keys"
    and loop: "differences_loop u data ic vc ([], [], None)
               = Inr (d, f, Some (data\<lparr>rows := group_rows data ic (last u)\<rparr>))"
    by blast
  have "distinct u" by (simp add: u distinct_unique)
  from differences_loop_result [OF loop this] assms(2) show ?thesis by auto
qed

text \<open>
  C2, as stated, at a table with no rows: there is no group, the loop body never runs,
  and reading \<open>subset\<close> after the loop raises \<^verbatim>\<open>UnboundLocalError\<close>; no date axis
  is returned.
\<close>

theorem calculate_differences_empty_counterexample:
  "calculate_differences (example_cases\<lparr>rows := []\<rparr>) ''country'' ''confirmed''
   = Inl UnboundLocalError"
  by code_simp

text \<open>
  C2, amended: for every input table on which \<open>calculate_differences\<close> returns (such a
  table has at least one row), the date axis it returns is the dates of the rows of the
  last group processed, the groups being taken in the order of the first occurrence of
  their keys, with that group's first date dropped; it is one sequence for all groups.
\<close>

theorem calculate_differences_dates:
  assumes "calculate_differences data index_column value_column
           = Inr (differences, differences_fatalities, dates, unique_values)"
  shows "rows data \<noteq> [] \<and> unique_values \<noteq> []
         \<and> get_level_values data index_column = Inr (map (\<lambda>r. cell_at (labels r) index_column) (rows data))
         \<and> unique_values = unique (map (\<lambda>r. cell_at (labels r) index_column) (rows data))
         \<and> dates = drop 1 (map (\<lambda>r. cell_at (labels r) ''date'')
                             (group_rows data index_column (last unique_values)))"
proof -
  from calculate_differences_Inr [OF assms] obtain keys where
    keys: "get_level_values data index_column = Inr keys"
    and u: "unique_values = unique keys" "unique_values \<noteq> []"
    and dates: "dates = drop 1 (map (\<lambda>r. cell_at (labels r) ''date'')
                                 (group_rows data index_column (last unique_values)))"
    by blast
  from keys have k: "keys = map (\<lambda>r. cell_at (labels r) index_column) (rows data)"
    by (auto simp: get_level_values_def split: if_splits)
  have "set keys \<noteq> {}" using u set_unique [of keys] by auto
  then have "rows data \<noteq> []" using k by auto
  with keys u dates k show ?thesis by simp
qed

theorem calculate_differences_dates_witness:
  "calculate_differences example_cases ''country'' ''confirmed''
   = Inr ([(Str ''A'', [DInt64 5, DInt64 (- 2)]), (Str ''C'', []), (Str ''B'', [DInt64 4])],
          [(Str ''A'', [DInt64 1, DInt64 0]), (Str ''C'', []), (Str ''B'', [DInt64 1])],
          [Date (midnight 738645)],
          [Str ''A'', Str ''C'', Str ''B''])
   \<and> group_rows example_cases ''country'' (Str ''B'')
       = [case_row ''B'' 738641 3 0, case_row ''B'' 738645 7 1]
   \<and> [Date (midnight 738645)]
       = drop 1 (map (\<lambda>r. cell_at (labels r) ''date'')
                   (group_rows example_cases ''country'' (last [Str ''A'', Str ''C'', Str ''B''])))"
proof -
  have g: "group_rows example_cases ''country'' (Str ''B'')
        = [case_row ''B'' 738641 3 0, case_row ''B'' 738645 7 1]"
    by (simp add: group_rows_def example_cases_def case_row_def cell_at_def cell_eq_def)
  from calculate_differences_dates [OF example_cases_result]
  have d: "[Date (midnight 738645)]
       = drop 1 (map (\<lambda>r. cell_at (labels r) ''date'')
                   (group_rows example_cases ''country'' (last [Str ''A'', Str ''C'', Str ''B''])))"
    by blast
  from example_cases_result g d show ?thesis by blast
qed

text \<open>
  C10: whenever \<open>calculate_differences\<close> returns, its two dictionaries have the same
  keys, in the same order: exactly the returned \<open>unique_values\<close>, one entry for each.
  \<open>unique_values\<close> has no repeats and lists the group keys of the table in the order of
  their first occurrence (the key list with every later repetition removed).
\<close>

theorem calculate_differences_keys:
  assumes "calculate_differences data index_column value_column
           = Inr (differences, differences_fatalities, dates, unique_values)"
  shows "map fst differences = unique_values
         \<and> map fst differences_fatalities = unique_values
         \<and> dom (map_of differences) = set unique_values
         \<and> dom (map_of differences_fatalities) = set unique_values
         \<and> distinct unique_values
         \<and> set unique_values = set (map (\<lambda>r. cell_at (labels r) index_column) (rows data))
         \<and> unique_values
             = rev (remdups (rev (map (\<lambda>r. cell_at (labels r) index_column) (rows data))))"
proof -
  from calculate_differences_Inr [OF assms] obtain keys where
    keys: "get_level_values data index_column = Inr keys"
    and u: "unique_values = unique keys"
    and loop: "differences_loop unique_values data index_column value_column ([], [], None)
               = Inr (differences, differences_fatalities,
                      Some (data\<lparr>rows := group_rows data index_column (last unique_values)\<rparr>))"
    by blast
  from keys have k: "keys = map (\<lambda>r. cell_at (labels r) index_column) (rows data)"
    by (auto simp: get_level_values_def split: if_splits)
  have d: "distinct unique_values" by (simp add: u distinct_unique)
  from differences_loop_result [OF loop d]
  have m: "map fst differences = unique_values"
    "map fst differences_fatalities = unique_values"
    by simp_all
  have "dom (map_of differences) = set (map fst differences)"
    "dom (map_of differences_fatalities) = set (map fst differences_fatalities)"
    by (simp_all add: dom_map_of_conv_image_fst)
  with m d show ?thesis
    using u k by (simp add: set_unique unique_eq [symmetric])
qed

theorem calculate_differences_keys_witness:
  "calculate_differences example_cases ''country'' ''confirmed''
   = Inr ([(Str ''A'', [DInt64 5, DInt64 (- 2)]), (Str ''C'', []), (Str ''B'', [DInt64 4])],
          [(Str ''A'', [DInt64 1, DInt64 0]), (Str ''C'', []), (Str ''B'', [DInt64 1])],
          [Date (midnight 738645)],
          [Str ''A'', Str ''C'', Str ''B''])
   \<and> map (\<lambda>r. cell_at (labels r) ''country'') (rows (example_cases))
       = [Str ''A'', Str ''C'', Str ''B'', Str ''A'', Str ''A'', Str ''B'']
   \<and> dom (map_of [(Str ''A'' :: cell, [DInt64 5, DInt64 (- 2)]), (Str ''C'', []), (Str ''B'', [DInt64 4])])
       = set [Str ''A'', Str ''C'', Str ''B'']
   \<and> distinct [Str ''A'', Str ''C'', Str (''B'') :: cell]"
proof -
  have k: "map (\<lambda>r. cell_at (labels r) ''country'') (rows (example_cases))
       = [Str ''A'', Str ''C'', Str ''B'', Str ''A'', Str ''A'', Str ''B'']"
    by (simp add: example_cases_def case_row_def cell_at_def)
  note r = example_cases_result
  have "dom (map_of [(Str ''A'' :: cell, [DInt64 5, DInt64 (- 2)]), (Str ''C'', []), (Str ''B'', [DInt64 4])])
       = set [Str ''A'', Str ''C'', Str ''B'']"
    using calculate_differences_keys [OF r] by (elim conjE)
  moreover have "distinct [Str ''A'', Str ''C'', Str (''B'') :: cell]"
    using calculate_differences_keys [OF r] by (elim conjE)
  ultimately show ?thesis using r k by (intro conjI)
qed

lemma cell_sub_numbers: "cell_sub (Int64 b) (Int64 a) = Inr (DInt64 (b - a))"
  by simp





lemma group_values_short:
  "length (group_rows data ic v) \<le> 1 \<Longrightarrow> np_diff (group_values data ic v c) = Inr []"
  by (rule np_diff_short) (simp add: group_values_def)

lemma example_singles_result:
  "calculate_differences example_singles ''country'' ''confirmed''
   = Inr ([(Str ''A'', []), (NaN, [])], [(Str ''A'', []), (NaN, [])], [], [Str ''A'', NaN])"
  by code_simp

lemma example_singles_groups: "length (group_rows example_singles ''country'' w) \<le> 1"
  by (simp add: group_rows_def example_singles_def cell_at_def cell_eq_def)

lemma calculate_differences_returns_iff:
  "(\<exists>d f ds u. calculate_differences data ic vc = Inr (d, f, ds, u))
   \<longleftrightarrow> ic \<in> set (levels data) \<and> ''date'' \<in> set (levels data)
       \<and> vc \<in> set (columns data) \<and> ''fatalities, %'' \<in> set (columns data)
       \<and> rows data \<noteq> []
       \<and> (\<forall>w. 2 \<le> length (group_rows data ic w)
              \<longrightarrow> (\<exists>ds. np_diff (group_values data ic w vc) = Inr ds)
                  \<and> (\<exists>fs. np_diff (group_values data ic w ''fatalities, %'') = Inr fs))"
  (is "?L \<longleftrightarrow> ?R")
proof
  assume ?L
  then obtain d f ds u where r: "calculate_differences data ic vc = Inr (d, f, ds, u)"
    by blast
  from calculate_differences_Inr [OF r] obtain keys where
    keys: "get_level_values data ic = Inr keys" and u: "u = unique keys" "u \<noteq> []"
    and loop: "differences_loop u data ic vc ([], [], None)
               = Inr (d, f, Some (data\<lparr>rows := group_rows data ic (last u)\<rparr>))"
    and date: "''date'' \<in> set (levels data)"
    by blast
  from keys have ic: "ic \<in> set (levels data)"
    and k: "keys = map (\<lambda>r. cell_at (labels r) ic) (rows data)"
    by (auto simp: get_level_values_def split: if_splits)
  from u(2) obtain v rest where "u = v # rest" by (cases u) auto
  with loop differences_loop_step have cols:
    "vc \<in> set (columns data)" "''fatalities, %'' \<in> set (columns data)"
    by blast+
  have "set keys \<noteq> {}" using u set_unique [of keys] by auto
  then have ne: "rows data \<noteq> []" using k by auto
  have "(\<exists>ds. np_diff (group_values data ic w vc) = Inr ds)
        \<and> (\<exists>fs. np_diff (group_values data ic w ''fatalities, %'') = Inr fs)"
    if "2 \<le> length (group_rows data ic w)" for w
  proof -
    from that have "group_rows data ic w \<noteq> []" by auto
    then have "w \<in> set u" using group_member [of data ic w] k u(1) by (simp add: set_unique)
    from calculate_differences_lookup [OF r this] show ?thesis by blast
  qed
  with ic date cols ne show ?R by blast
next
  assume R: ?R
  have "(\<exists>ds. np_diff (group_values data ic w vc) = Inr ds)
        \<and> (\<exists>fs. np_diff (group_values data ic w ''fatalities, %'') = Inr fs)" for w
  proof (cases "2 \<le> length (group_rows data ic w)")
    case True
    with R show ?thesis by blast
  next
    case False
    then have "length (group_rows data ic w) \<le> 1" by simp
    then show ?thesis using group_values_short by blast
  qed
  with R show ?L using calculate_differences_returns [of ic data vc] by blast
qed

text \<open>
  C5, as stated, at a table with a single row for \<open>A\<close> and two rows for \<open>B\<close> that hold
  strings: the group of \<open>A\<close> has one row, yet \<open>calculate_differences\<close> raises
  \<^verbatim>\<open>TypeError\<close> and records nothing, so grouped processing is not total over
  arbitrary partitions. Tables whose groups all have at most one row fail as well when
  an index level or a column is absent (\<^verbatim>\<open>KeyError\<close>), and the table with no rows
  raises \<^verbatim>\<open>UnboundLocalError\<close>.
\<close>

theorem calculate_differences_not_total_counterexample:
  "length (group_rows example_mixed ''country'' (Str ''A'')) = 1
   \<and> calculate_differences example_mixed ''country'' ''confirmed'' = Inl TypeError
   \<and> calculate_differences example_singles ''region'' ''confirmed'' = Inl KeyError
   \<and> calculate_differences example_singles ''country'' ''deaths'' = Inl KeyError
   \<and> calculate_differences (example_singles\<lparr>columns := [''confirmed'']\<rparr>)
        ''country'' ''confirmed'' = Inl KeyError
   \<and> calculate_differences (example_singles\<lparr>levels := [''country'']\<rparr>)
        ''country'' ''confirmed'' = Inl KeyError
   \<and> calculate_differences (example_singles\<lparr>rows := []\<rparr>)
        ''country'' ''confirmed'' = Inl UnboundLocalError"
proof -
  have "length (group_rows example_mixed ''country'' (Str ''A'')) = 1"
    by (simp add: group_rows_def example_mixed_def case_row_def cell_at_def cell_eq_def)
  moreover have "calculate_differences example_mixed ''country'' ''confirmed'' = Inl TypeError"
    by code_simp
  moreover have "calculate_differences example_singles ''region'' ''confirmed'' = Inl KeyError"
    by code_simp
  moreover have "calculate_differences example_singles ''country'' ''deaths'' = Inl KeyError"
    by code_simp
  moreover have "calculate_differences (example_singles\<lparr>columns := [''confirmed'']\<rparr>)
        ''country'' ''confirmed'' = Inl KeyError"
    by code_simp
  moreover have "calculate_differences (example_singles\<lparr>levels := [''country'']\<rparr>)
        ''country'' ''confirmed'' = Inl KeyError"
    by code_simp
  moreover have "calculate_differences (example_singles\<lparr>rows := []\<rparr>)
        ''country'' ''confirmed'' = Inl UnboundLocalError"
    by code_simp
  ultimately show ?thesis by (intro conjI)
qed

text \<open>
  C5, amended: the difference sequence of a group with no row or one row is empty, and
  computing it raises nothing, whatever the cells hold; whenever
  \<open>calculate_differences\<close> returns, the sequence recorded under the key of such a group
  is empty in both dictionaries. \<open>calculate_differences\<close> returns exactly when the table
  has the index level, the level \<^verbatim>\<open>'date'\<close>, the value column and the column
  \<^verbatim>\<open>'fatalities, %'\<close>, has at least one row, and the values of every group of two or
  more rows can be subtracted in both columns: groups of at most one row never make it
  fail.
\<close>

theorem calculate_differences_small_group:
  "(length (group_rows data index_column v) \<le> 1
      \<longrightarrow> np_diff (group_values data index_column v column) = Inr [])
   \<and> (length (group_rows data index_column v) \<le> 1
        \<and> calculate_differences data index_column value_column
            = Inr (differences, differences_fatalities, dates, unique_values)
        \<and> v \<in> set unique_values
      \<longrightarrow> map_of differences v = Some [] \<and> map_of differences_fatalities v = Some [])
   \<and> ((\<exists>d f ds u. calculate_differences data index_column value_column = Inr (d, f, ds, u))
      \<longleftrightarrow> index_column \<in> set (levels data) \<and> ''date'' \<in> set (levels data)
          \<and> value_column \<in> set (columns data) \<and> ''fatalities, %'' \<in> set (columns data)
          \<and> rows data \<noteq> []
          \<and> (\<forall>w. 2 \<le> length (group_rows data index_column w)
                 \<longrightarrow> (\<exists>ds. np_diff (group_values data index_column w value_column) = Inr ds)
                     \<and> (\<exists>fs. np_diff (group_values data index_column w ''fatalities, %'')
                              = Inr fs)))"
proof (intro conjI impI)
  assume "length (group_rows data index_column v) \<le> 1"
  then show "np_diff (group_values data index_column v column) = Inr []"
    by (rule group_values_short)
next
  assume a: "length (group_rows data index_column v) \<le> 1
        \<and> calculate_differences data index_column value_column
            = Inr (differences, differences_fatalities, dates, unique_values)
        \<and> v \<in> set unique_values"
  then obtain ds fs where
    "map_of differences v = Some ds" "map_of differences_fatalities v = Some fs"
    "np_diff (group_values data index_column v value_column) = Inr ds"
    "np_diff (group_values data index_column v ''fatalities, %'') = Inr fs"
    using calculate_differences_lookup by blast
  moreover have "np_diff (group_values data index_column v value_column) = Inr []"
    "np_diff (group_values data index_column v ''fatalities, %'') = Inr []"
    using a group_values_short by blast+
  ultimately show "map_of differences v = Some []" "map_of differences_fatalities v = Some []"
    by simp_all
next
  show "(\<exists>d f ds u. calculate_differences data index_column value_column = Inr (d, f, ds, u))
      \<longleftrightarrow> index_column \<in> set (levels data) \<and> ''date'' \<in> set (levels data)
          \<and> value_column \<in> set (columns data) \<and> ''fatalities, %'' \<in> set (columns data)
          \<and> rows data \<noteq> []
          \<and> (\<forall>w. 2 \<le> length (group_rows data index_column w)
                 \<longrightarrow> (\<exists>ds. np_diff (group_values data index_column w value_column) = Inr ds)
                     \<and> (\<exists>fs. np_diff (group_values data index_column w ''fatalities, %'')
                              = Inr fs))"
    by (rule calculate_differences_returns_iff)
qed

theorem calculate_differences_small_group_witness:
  "length (group_rows example_singles ''country'' (Str ''A'')) = 1
   \<and> length (group_rows example_singles ''country'' NaN) = 0
   \<and> group_values example_singles ''country'' (Str ''A'') ''confirmed'' = [Str ''n/a'']
   \<and> np_diff (group_values example_singles ''country'' (Str ''A'') ''confirmed'') = Inr []
   \<and> calculate_differences example_singles ''country'' ''confirmed''
       = Inr ([(Str ''A'', []), (NaN, [])], [(Str ''A'', []), (NaN, [])], [], [Str ''A'', NaN])
   \<and> map_of [(Str ''A'', [] :: diff list), (NaN, [])] NaN = Some []
   \<and> rows example_singles \<noteq> []
   \<and> (\<exists>d f ds u. calculate_differences example_singles ''country'' ''confirmed''
          = Inr (d, f, ds, u))"
proof -
  note r = example_singles_result
  note main = calculate_differences_small_group
  have a: "length (group_rows example_singles ''country'' (Str ''A'')) = 1"
    and n: "length (group_rows example_singles ''country'' NaN) = 0"
    and x: "group_values example_singles ''country'' (Str ''A'') ''confirmed'' = [Str ''n/a'']"
    and ne: "rows example_singles \<noteq> []"
    by (simp_all add: group_values_def group_rows_def example_singles_def cell_at_def cell_eq_def)
  have d: "np_diff (group_values example_singles ''country'' (Str ''A'') ''confirmed'') = Inr []"
    using main [of example_singles "''country''" "Str ''A''" "''confirmed''"] a by simp
  have "NaN \<in> set [Str ''A'', NaN]" by simp
  with n r have m: "map_of [(Str ''A'', [] :: diff list), (NaN, [])] NaN = Some []"
    using main [of example_singles "''country''" NaN "''confirmed''" "''confirmed''"
        "[(Str ''A'', []), (NaN, [])]" "[(Str ''A'', []), (NaN, [])]" "[]" "[Str ''A'', NaN]"]
    by simp
  have small: "\<not> 2 \<le> length (group_rows example_singles ''country'' w)" for w
    using example_singles_groups [of w] by simp
  have t: "\<exists>d f ds u. calculate_differences example_singles ''country'' ''confirmed''
          = Inr (d, f, ds, u)"
    using main [of example_singles "''country''" NaN "''confirmed''" "''confirmed''"]
      small ne
    by (simp add: example_singles_def)
  from a n x d r m ne t show ?thesis by (intro conjI)
qed

section \<open>Properties of \<^verbatim>\<open>find_word\<close>\<close>

lemma special_not_word: "is_special c \<Longrightarrow> \<not> is_word_char c"
  by (auto simp: is_special_def is_word_char_def backslash_def)

lemma plain_char:
  assumes "\<not> is_special c"
  shows "c \<noteq> backslash" "c \<noteq> CHR ''.''" "c \<noteq> CHR ''?''"
  using assms by (auto simp: is_special_def)

lemma s_is_word_char: "is_word_char CHR ''s''"
  by (simp add: is_word_char_def)

lemma re_parse_tail:
  "re_parse (''s?'' @ [backslash, CHR ''b'']) = Some [Opt (Lit CHR ''s''), Boundary]"
  by (simp add: backslash_def is_special_def)

lemma re_parse_word_tail:
  assumes "\<forall>c \<in> set w. \<not> is_special c"
  shows "re_parse (w @ ''s?'' @ [backslash, CHR ''b''])
         = Some (map (\<lambda>c. Once (Lit c)) w @ [Opt (Lit CHR ''s''), Boundary])"
  using assms
proof (induction w)
  case Nil
  then show ?case using re_parse_tail by simp
next
  case (Cons c w)
  then have c: "\<not> is_special c" and w: "\<forall>c \<in> set w. \<not> is_special c" by simp_all
  obtain d rest where dr: "w @ ''s?'' @ [backslash, CHR ''b''] = d # rest" and d: "\<not> is_special d"
  proof (cases w)
    case Nil
    then show ?thesis
      using that [of "CHR ''s''"] s_is_word_char special_not_word by auto
  next
    case (Cons d w')
    then show ?thesis using that [of d] w by simp
  qed
  have "re_parse (c # d # rest) = map_option (Cons (Once (Lit c))) (re_parse (d # rest))"
    using c plain_char [OF c] plain_char(3) [OF d] by (simp add: Let_def)
  then show ?case using Cons.IH [OF w] dr by simp
qed

lemma re_parse_word_pattern:
  assumes "\<forall>c \<in> set word. \<not> is_special c"
  shows "re_parse (word_pattern word)
         = Some (Boundary # map (\<lambda>c. Once (Lit c)) word @ [Opt (Lit CHR ''s''), Boundary])"
proof -
  obtain d rest where dr: "word @ ''s?'' @ [backslash, CHR ''b''] = d # rest"
    by (cases word) simp_all
  have "re_parse (backslash # CHR ''b'' # d # rest)
        = map_option (Cons Boundary) (re_parse (d # rest))"
    by simp
  then show ?thesis
    using re_parse_word_tail [OF assms] dr by (simp add: word_pattern_def)
qed

lemma match_literals:
  "match_here (map (\<lambda>c. Once (Lit c)) w @ items) prev s
   \<longleftrightarrow> (\<exists>t. s = w @ t \<and> match_here items (if w = [] then prev else Some (last w)) t)"
proof (induction w arbitrary: prev s)
  case Nil
  then show ?case by simp
next
  case (Cons c w)
  show ?case
  proof (cases s)
    case Nil
    then show ?thesis by simp
  next
    case (Cons x xs)
    then show ?thesis using Cons.IH [of "Some x" xs] by auto
  qed
qed

lemma match_plural_tail:
  "match_here [Opt (Lit CHR ''s''), Boundary] prev t
   \<longleftrightarrow> (\<exists>t'. t = CHR ''s'' # t' \<and> at_boundary (Some CHR ''s'') t') \<or> at_boundary prev t"
  by (cases t) auto

lemma boundary_after_word:
  "is_word_char c \<Longrightarrow> at_boundary (Some c) t \<longleftrightarrow> t = [] \<or> \<not> is_word_char (hd t)"
  by (cases t) (simp_all add: at_boundary_def word_before_def word_after_def)

lemma boundary_before_word:
  "is_word_char c \<Longrightarrow> at_boundary prev (c # t) \<longleftrightarrow> \<not> word_before prev"
  by (auto simp: at_boundary_def word_after_def)

lemma match_word_here:
  assumes "word \<noteq> []" and "is_word_char (hd word)" and "is_word_char (last word)"
  shows "match_here (Boundary # map (\<lambda>c. Once (Lit c)) word @ [Opt (Lit CHR ''s''), Boundary]) prev s
         \<longleftrightarrow> \<not> word_before prev
             \<and> ((\<exists>post. s = word @ post \<and> (post = [] \<or> \<not> is_word_char (hd post)))
                \<or> (\<exists>post. s = (word @ ''s'') @ post \<and> (post = [] \<or> \<not> is_word_char (hd post))))"
proof -
  note l = assms(3) and h = assms(2)
  have b: "at_boundary prev (word @ t) \<longleftrightarrow> \<not> word_before prev" for t
    using boundary_before_word [OF h, of prev "tl word @ t"] assms(1)
    by (cases word) simp_all
  have "match_here (Boundary # map (\<lambda>c. Once (Lit c)) word @ [Opt (Lit CHR ''s''), Boundary]) prev s
        \<longleftrightarrow> at_boundary prev s
            \<and> (\<exists>t. s = word @ t \<and> match_here [Opt (Lit CHR ''s''), Boundary] (Some (last word)) t)"
    using assms(1) by (simp add: match_literals)
  also have "\<dots> \<longleftrightarrow> \<not> word_before prev
            \<and> (\<exists>t. s = word @ t \<and> match_here [Opt (Lit CHR ''s''), Boundary] (Some (last word)) t)"
    using b by auto
  also have "\<dots> \<longleftrightarrow> \<not> word_before prev
            \<and> (\<exists>t. s = word @ t
                  \<and> ((\<exists>t'. t = CHR ''s'' # t' \<and> (t' = [] \<or> \<not> is_word_char (hd t')))
                     \<or> (t = [] \<or> \<not> is_word_char (hd t))))"
    by (simp only: match_plural_tail boundary_after_word [OF l]
        boundary_after_word [OF s_is_word_char])
  also have "\<dots> \<longleftrightarrow> \<not> word_before prev
             \<and> ((\<exists>post. s = word @ post \<and> (post = [] \<or> \<not> is_word_char (hd post)))
                \<or> (\<exists>post. s = (word @ ''s'') @ post \<and> (post = [] \<or> \<not> is_word_char (hd post))))"
    by auto
  finally show ?thesis .
qed

lemma re_search_from_iff:
  "re_search_from items prev s
   \<longleftrightarrow> (\<exists>pre t. s = pre @ t \<and> match_here items (if pre = [] then prev else Some (last pre)) t)"
proof (induction s arbitrary: prev)
  case Nil
  then show ?case by simp
next
  case (Cons c cs)
  have "(\<exists>pre t. c # cs = pre @ t \<and> match_here items (if pre = [] then prev else Some (last pre)) t)
        \<longleftrightarrow> match_here items prev (c # cs)
            \<or> (\<exists>pre t. cs = pre @ t
                  \<and> match_here items (if pre = [] then Some c else Some (last pre)) t)"
    (is "?L \<longleftrightarrow> ?A \<or> ?B")
  proof
    assume ?L
    then obtain pre t where e: "c # cs = pre @ t"
      and m: "match_here items (if pre = [] then prev else Some (last pre)) t"
      by blast
    show "?A \<or> ?B"
    proof (cases pre)
      case Nil
      with e m show ?thesis by simp
    next
      case (Cons x pre')
      with e have "cs = pre' @ t" "x = c" by simp_all
      moreover have "match_here items (if pre' = [] then Some c else Some (last pre')) t"
        using m Cons \<open>x = c\<close> by (simp split: if_splits)
      ultimately show ?thesis by blast
    qed
  next
    assume "?A \<or> ?B"
    then show ?L
    proof
      assume ?A
      then have "c # cs = [] @ (c # cs)
                 \<and> match_here items (if [] = ([]::string) then prev else Some (last [])) (c # cs)"
        by simp
      then show ?L by blast
    next
      assume ?B
      then obtain pre t where "cs = pre @ t"
        and "match_here items (if pre = [] then Some c else Some (last pre)) t"
        by blast
      then have "c # cs = (c # pre) @ t
                 \<and> match_here items (if c # pre = [] then prev else Some (last (c # pre))) t"
        by (cases "pre = []") simp_all
      then show ?L by blast
    qed
  qed
  then show ?case using Cons.IH [of "Some c"] by simp
qed

lemma re_search_word:
  assumes "word \<noteq> []" and "is_word_char (hd word)" and "is_word_char (last word)"
  shows "re_search (Boundary # map (\<lambda>c. Once (Lit c)) word @ [Opt (Lit CHR ''s''), Boundary]) s
         \<longleftrightarrow> mentions_word word s"
proof -
  have wb: "\<not> word_before (if pre = [] then None else Some (last pre))
            \<longleftrightarrow> pre = [] \<or> \<not> is_word_char (last pre)" for pre :: string
    by (simp add: word_before_def)
  show ?thesis
    unfolding re_search_def re_search_from_iff match_word_here [OF assms] wb
      mentions_word_def whole_word_in_def
    by (auto 4 3)
qed

lemma the_strings_Some:
  "the_strings cs = Some texts \<longleftrightarrow> cs = map Str texts"
proof (induction cs arbitrary: texts rule: the_strings.induct)
  case 1
  then show ?case by auto
next
  case (2 s cs)
  then show ?case by (cases texts) auto
qed auto

lemma find_word_text_column:
  assumes "column \<in> set (columns dataframe)" and "rows dataframe \<noteq> []"
    and "\<forall>r \<in> set (rows dataframe). \<exists>s. cell_at (vals r) column = Str s"
    and "re_parse (word_pattern word) = Some items"
  shows "find_word dataframe column word
         = Some (Inr (dataframe\<lparr>rows :=
             filter (\<lambda>r. \<exists>s. cell_at (vals r) column = Str s \<and> re_search items s)
               (rows dataframe)\<rparr>))"
proof -
  let ?f = "\<lambda>r. cell_at (vals r) column"
  let ?t = "\<lambda>r. case ?f r of Str s \<Rightarrow> s | _ \<Rightarrow> []"
  have str: "?f r = Str (?t r)" if "r \<in> set (rows dataframe)" for r
    using assms(3) that by (auto split: cell.splits)
  have col: "get_column dataframe column = Inr (map ?f (rows dataframe))"
    using assms(1) by (simp add: get_column_def)
  have "map ?f (rows dataframe) = map Str (map ?t (rows dataframe))"
    using str by simp
  then have texts: "the_strings (map ?f (rows dataframe)) = Some (map ?t (rows dataframe))"
    by (simp only: the_strings_Some)
  have "re_search items (?t r) \<longleftrightarrow> (\<exists>s. ?f r = Str s \<and> re_search items s)"
    if "r \<in> set (rows dataframe)" for r
    using str [OF that] by auto
  then have "str_contains items (map ?t (rows dataframe))
             = map (\<lambda>r. \<exists>s. ?f r = Str s \<and> re_search items s) (rows dataframe)"
    by (simp add: str_contains_def)
  then have "select_rows dataframe (str_contains items (map ?t (rows dataframe)))
             = dataframe\<lparr>rows := filter (\<lambda>r. \<exists>s. ?f r = Str s \<and> re_search items s)
                                    (rows dataframe)\<rparr>"
    by (simp add: select_rows_def select_by_mask)
  then show ?thesis
    using assms(2,4) by (simp add: find_word_def col texts)
qed

text \<open>
  With a word that has no character of the regular expressions and that begins and ends
  with a word character, \<open>find_word\<close> does on a text column what its docstring says: it
  selects exactly the rows that mention the word, as it is or with an \<open>s\<close> behind it.
\<close>

lemma find_word_plain_word:
  assumes "word \<noteq> []" and "\<forall>c \<in> set word. \<not> is_special c"
    and "is_word_char (hd word)" and "is_word_char (last word)"
    and "column \<in> set (columns dataframe)" and "rows dataframe \<noteq> []"
    and "\<forall>r \<in> set (rows dataframe). \<exists>s. cell_at (vals r) column = Str s"
  shows "find_word dataframe column word
         = Some (Inr (dataframe\<lparr>rows :=
             filter (\<lambda>r. \<exists>s. cell_at (vals r) column = Str s \<and> mentions_word word s)
               (rows dataframe)\<rparr>))"
  using find_word_text_column [OF assms(5,6,7) re_parse_word_pattern [OF assms(2)]]
    re_search_word [OF assms(1,3,4)]
  by simp

lemma find_word_example:
  "find_word example_texts ''text'' ''cat''
   = Some (Inr (example_texts\<lparr>rows := [text_row ''cat runs'', text_row ''cats jump'']\<rparr>))"
  by code_simp

lemma find_word_missing_column:
  "column \<notin> set (columns dataframe) \<Longrightarrow> find_word dataframe column word = Some (Inl KeyError)"
  by (simp add: find_word_def get_column_def)

text \<open>
  C8: the claim is what the docstring promises (the rows where the word is found), and
  it holds for the column \<^verbatim>\<open>["cat runs", "cats jump", "dog barks"]\<close> with the word
  \<^verbatim>\<open>cat\<close>. The code breaks it for a word with a character of the regular expressions,
  which is pasted into the pattern without \<^verbatim>\<open>re.escape\<close>: with the word
  \<^verbatim>\<open>U.S\<close> and the texts \<^verbatim>\<open>UPS strike\<close> and \<^verbatim>\<open>U.S policy\<close> it returns both rows,
  although only the second text contains the word.
\<close>

theorem find_word_regex_counterexample:
  "find_word example_news ''text'' ''U.S'' = Some (Inr example_news)
   \<and> rows example_news = [text_row ''UPS strike'', text_row ''U.S policy'']
   \<and> \<not> mentions_word ''U.S'' ''UPS strike''
   \<and> mentions_word ''U.S'' ''U.S policy''
   \<and> find_word example_texts ''text'' ''cat''
       = Some (Inr (example_texts\<lparr>rows := [text_row ''cat runs'', text_row ''cats jump'']\<rparr>))"
proof -
  have "find_word example_news ''text'' ''U.S'' = Some (Inr example_news)"
    by code_simp
  moreover have "rows example_news = [text_row ''UPS strike'', text_row ''U.S policy'']"
    by (simp add: example_news_def)
  moreover have "\<not> whole_word_in w ''UPS strike''" if "CHR ''.'' \<in> set w" for w
  proof
    assume "whole_word_in w ''UPS strike''"
    then obtain pre post where "''UPS strike'' = pre @ w @ post"
      unfolding whole_word_in_def by blast
    then have "set ''UPS strike'' = set pre \<union> set w \<union> set post"
      by (metis set_append Un_assoc)
    with that have "CHR ''.'' \<in> set ''UPS strike''" by blast
    then show False by simp
  qed
  then have "\<not> mentions_word ''U.S'' ''UPS strike''"
    by (simp add: mentions_word_def)
  moreover have "mentions_word ''U.S'' ''U.S policy''"
  proof -
    have "''U.S policy'' = [] @ ''U.S'' @ '' policy''
          \<and> ([] = ([] :: string) \<or> \<not> is_word_char (last []))
          \<and> ('' policy'' = [] \<or> \<not> is_word_char (hd '' policy''))"
      by (simp add: is_word_char_def)
    then have "whole_word_in ''U.S'' ''U.S policy''"
      unfolding whole_word_in_def by blast
    then show ?thesis by (simp add: mentions_word_def)
  qed
  ultimately show ?thesis using find_word_example by (intro conjI)
qed

end
